theory Spec2Isabelle
  imports Complex_Main
begin

section \<open>Python strings and lists\<close>

text \<open>
  A Python \<^verbatim>\<open>str\<close> is modelled as a \<^typ>\<open>string\<close>, one \<^typ>\<open>char\<close> for each
  code point, so the model covers the strings whose code points are below 256.
  \<^verbatim>\<open>len\<close> is \<^const>\<open>length\<close>, and Python's unbounded \<^verbatim>\<open>int\<close> is \<^typ>\<open>int\<close>.
\<close>

text \<open>
  \<^verbatim>\<open>str.isspace\<close> for one character. \<^verbatim>\<open>str.split()\<close>, \<^verbatim>\<open>str.strip()\<close> and the
  class \<^verbatim>\<open>\s\<close> of \<^verbatim>\<open>re\<close> (on \<^verbatim>\<open>str\<close> patterns) all use this set.
\<close>

definition is_space :: "char \<Rightarrow> bool" where
  "is_space c = (c \<in> set [CHR 0x09, CHR 0x0A, CHR 0x0B, CHR 0x0C, CHR 0x0D,
                         CHR 0x1C, CHR 0x1D, CHR 0x1E, CHR 0x1F, CHR 0x20,
                         CHR 0x85, CHR 0xA0])"

text \<open>
  How a slice bound is read for a sequence of length \<open>len\<close>: a negative bound counts
  from the end, and every bound is clamped to \<open>0 .. len\<close>.
\<close>

definition slice_index :: "nat \<Rightarrow> int \<Rightarrow> nat" where
  "slice_index len k = (if k < 0 then nat (max 0 (int len + k)) else min len (nat k))"

text \<open>The slice \<^verbatim>\<open>s[lo:hi]\<close>.\<close>

definition py_slice :: "'a list \<Rightarrow> int \<Rightarrow> int \<Rightarrow> 'a list" where
  "py_slice s lo hi =
     (let a = slice_index (length s) lo; b = slice_index (length s) hi
      in take (b - a) (drop a s))"

text \<open>\<^verbatim>\<open>s.rfind(c)\<close> for a one-character \<open>c\<close>: the highest index of \<open>c\<close>, or \<open>-1\<close>.\<close>

fun rfind :: "string \<Rightarrow> char \<Rightarrow> int" where
  "rfind [] c = -1"
| "rfind (x # xs) c =
     (let r = rfind xs c in if 0 \<le> r then r + 1 else if x = c then 0 else -1)"

text \<open>\<^verbatim>\<open>s.strip()\<close>.\<close>

definition py_strip :: "string \<Rightarrow> string" where
  "py_strip s = rev (dropWhile is_space (rev (dropWhile is_space s)))"

text \<open>
  \<^verbatim>\<open>s.split()\<close>: the maximal runs of characters that are not whitespace. The first
  argument is the word being read.
\<close>

fun split_from :: "string \<Rightarrow> string \<Rightarrow> string list" where
  "split_from w [] = (if w = [] then [] else [w])"
| "split_from w (c # cs) =
     (if is_space c then (if w = [] then split_from [] cs else w # split_from [] cs)
      else split_from (w @ [c]) cs)"

definition py_split :: "string \<Rightarrow> string list" where
  "py_split s = split_from [] s"

text \<open>\<^verbatim>\<open>sep.join(xs)\<close> for a list of strings.\<close>

fun py_join :: "string \<Rightarrow> string list \<Rightarrow> string" where
  "py_join sep [] = []"
| "py_join sep [x] = x"
| "py_join sep (x # y # ys) = x @ sep @ py_join sep (y # ys)"

text \<open>
  \<^verbatim>\<open>re.sub(r"\s+", " ", s)\<close>: every maximal run of whitespace becomes one space. The
  flag says that the character before was whitespace, already replaced.
\<close>

fun sub_from :: "bool \<Rightarrow> string \<Rightarrow> string" where
  "sub_from r [] = []"
| "sub_from r (c # cs) =
     (if is_space c then (if r then sub_from True cs else CHR '' '' # sub_from True cs)
      else c # sub_from False cs)"

definition sub_whitespace :: "string \<Rightarrow> string" where
  "sub_whitespace s = sub_from False s"

text \<open>\<^verbatim>\<open>str(k)\<close> for an integer.\<close>

fun str_nat :: "nat \<Rightarrow> string" where
  "str_nat k = (if k < 10 then [''0123456789'' ! k]
                else str_nat (k div 10) @ [''0123456789'' ! (k mod 10)])"

definition str_int :: "int \<Rightarrow> string" where
  "str_int k = (if k < 0 then CHR ''-'' # str_nat (nat (- k)) else str_nat (nat k))"

section \<open>The chunker\<close>

text \<open>
  \<^verbatim>\<open>
  def chunks(s: str, n: int = 12000, overlap: int = 400):
      if len(s) <= n: yield s; return
      i = 0
      while i < len(s):
          seg = s[i:i+n]
          j = seg.rfind("\n")
          if j > n*0.6: seg = seg[:j]
          yield seg
          i += max(1, len(seg) - overlap)
  \<close>
  The generator is modelled by the list of what it yields. The product \<^verbatim>\<open>n*0.6\<close> is a
  double; for \<open>\<bar>n\<bar> < 2\<^sup>5\<^sup>3\<close> it compares with an integer \<open>j\<close> as the exact product
  does (a multiple of 5 gives the exact integer, any other \<open>n\<close> a value at least 0.2
  away from every integer), so the model compares over the reals.
\<close>

text \<open>The body of the loop at offset \<open>i\<close>, up to the \<^verbatim>\<open>yield\<close>.\<close>

definition chunk_seg :: "string \<Rightarrow> int \<Rightarrow> int \<Rightarrow> string" where
  "chunk_seg s n i =
     (let seg = py_slice s i (i + n);
          j = rfind seg (CHR 0x0A)
      in if real_of_int n * 0.6 < real_of_int j then py_slice seg 0 j else seg)"

function chunks_loop :: "string \<Rightarrow> int \<Rightarrow> int \<Rightarrow> int \<Rightarrow> string list" where
  "chunks_loop s n overlap i =
     (if i < int (length s)
      then (let seg = chunk_seg s n i
            in seg # chunks_loop s n overlap (i + max 1 (int (length seg) - overlap)))
      else [])"
  by pat_completeness auto
termination
  by (relation "measure (\<lambda>(s, n, overlap, i). nat (int (length s) - i))") auto

definition chunks :: "string \<Rightarrow> int \<Rightarrow> int \<Rightarrow> string list" where
  "chunks s n overlap = (if int (length s) \<le> n then [s] else chunks_loop s n overlap 0)"

text \<open>
  The offsets at which the loop yields: the values of \<open>i\<close> at the \<^verbatim>\<open>yield\<close>, in order.
  The chunk yielded at offset \<open>i\<close> is \<^term>\<open>chunk_seg s n i\<close>.
\<close>

function loop_offsets :: "string \<Rightarrow> int \<Rightarrow> int \<Rightarrow> int \<Rightarrow> int list" where
  "loop_offsets s n overlap i =
     (if i < int (length s)
      then i # loop_offsets s n overlap (i + max 1 (int (length (chunk_seg s n i)) - overlap))
      else [])"
  by pat_completeness auto
termination
  by (relation "measure (\<lambda>(s, n, overlap, i). nat (int (length s) - i))") auto

definition chunk_offsets :: "string \<Rightarrow> int \<Rightarrow> int \<Rightarrow> int list" where
  "chunk_offsets s n overlap = (if int (length s) \<le> n then [0] else loop_offsets s n overlap 0)"

declare str_nat.simps [simp del]
declare chunks_loop.simps [simp del]
declare loop_offsets.simps [simp del]

section \<open>Exceptions\<close>

text \<open>
  The exceptions the program can end with. \<open>SystemExit\<close> carries its message;
  \<open>HTTPError\<close> is what \<^verbatim>\<open>raise_for_status\<close> raises, \<open>RequestException\<close> any other
  failure of \<^verbatim>\<open>requests.get\<close>, \<open>ModelError\<close> whatever the call of the model raises.
\<close>

datatype error =
    HTTPError
  | RequestException
  | SystemExit string
  | AttributeError
  | TypeError
  | ModelError

section \<open>JSON values\<close>

text \<open>
  What \<^verbatim>\<open>json.loads\<close> returns: \<^verbatim>\<open>None\<close>, a \<^verbatim>\<open>bool\<close>, an \<^verbatim>\<open>int\<close>, a \<^verbatim>\<open>float\<close>, a
  \<^verbatim>\<open>str\<close>, a \<^verbatim>\<open>list\<close> or a \<^verbatim>\<open>dict\<close> with string keys. A dict keeps its keys in
  the order of insertion: it is an association list. A float is a rational number,
  an infinity (\<open>True\<close> for the negative one) or not a number.
\<close>

datatype pyfloat = Finite rat | Infinite bool | NaN

datatype json =
    JNull
  | JBool bool
  | JInt int
  | JFloat pyfloat
  | JString string
  | JArray "json list"
  | JObject "(string \<times> json) list"

text \<open>The truth value of a Python object, as \<^verbatim>\<open>or\<close> tests it.\<close>

fun truthy :: "json \<Rightarrow> bool" where
  "truthy JNull = False"
| "truthy (JBool b) = b"
| "truthy (JInt k) = (k \<noteq> 0)"
| "truthy (JFloat x) = (x \<noteq> Finite 0)"
| "truthy (JString s) = (s \<noteq> [])"
| "truthy (JArray xs) = (xs \<noteq> [])"
| "truthy (JObject d) = (d \<noteq> [])"

text \<open>\<^verbatim>\<open>d.get(k, default)\<close>, \<^verbatim>\<open>d[k] = v\<close> and \<^verbatim>\<open>d.setdefault(k, v)\<close> on a dict.\<close>

definition dict_get :: "(string \<times> json) list \<Rightarrow> string \<Rightarrow> json \<Rightarrow> json" where
  "dict_get d k dflt = (case map_of d k of Some v \<Rightarrow> v | None \<Rightarrow> dflt)"

fun dict_set :: "(string \<times> json) list \<Rightarrow> string \<Rightarrow> json \<Rightarrow> (string \<times> json) list" where
  "dict_set [] k v = [(k, v)]"
| "dict_set ((k', v') # d) k v =
     (if k' = k then (k, v) # d else (k', v') # dict_set d k v)"

definition dict_setdefault ::
  "(string \<times> json) list \<Rightarrow> string \<Rightarrow> json \<Rightarrow> (string \<times> json) list" where
  "dict_setdefault d k v = (case map_of d k of Some u \<Rightarrow> d | None \<Rightarrow> d @ [(k, v)])"

text \<open>
  \<^verbatim>\<open>x.get(k, default)\<close> on any value: only a dict has the method, every other value
  raises \<^verbatim>\<open>AttributeError\<close>.
\<close>

definition py_get :: "json \<Rightarrow> string \<Rightarrow> json \<Rightarrow> error + json" where
  "py_get x k dflt =
     (case x of JObject d \<Rightarrow> Inr (dict_get d k dflt) | _ \<Rightarrow> Inl AttributeError)"

section \<open>The page fetcher and content extractor\<close>

text \<open>
  What the HTML parser gives for a fetched page. \<open>title_string\<close> is \<open>None\<close> when
  \<^verbatim>\<open>soup.title\<close> is \<^verbatim>\<open>None\<close>, and \<open>Some None\<close> when \<^verbatim>\<open>soup.title.string\<close> is.
  \<open>fragments\<close> lists \<^verbatim>\<open>t.get_text(" ", strip=True)\<close> for the \<^verbatim>\<open>h1, h2, h3, p, li\<close> and
  \<^verbatim>\<open>blockquote\<close> elements \<open>t\<close> in document order, once the \<^verbatim>\<open>script, style, noscript,
  header, footer, nav, aside, form, svg, img, video, audio, iframe\<close> and \<^verbatim>\<open>canvas\<close>
  elements are decomposed.
\<close>

record page =
  title_string :: "string option option"
  fragments :: "string list"

text \<open>The prompt sent to the model and the response it gives.\<close>

record prompt =
  prompt_role :: string
  prompt_parts :: "string list"

text \<open>
  \<open>resp_text\<close> is \<^verbatim>\<open>getattr(resp, "text", None)\<close>; \<open>candidates\<close> lists for each candidate
  the parts of its content, a part being \<open>None\<close> when it has no \<^verbatim>\<open>text\<close> attribute.
\<close>

record response =
  resp_text :: "string option"
  candidates :: "string option list list"

text \<open>
  Everything outside the program: what \<^verbatim>\<open>requests.get\<close>, \<^verbatim>\<open>raise_for_status\<close> and the
  HTML parser give for a URL; the value of \<^verbatim>\<open>GEMINI_API_KEY\<close>; and, for a model name,
  what the call number \<open>k\<close> (from 0) of \<^verbatim>\<open>generate_content\<close> in this run answers to a
  prompt.
\<close>

record world =
  http_get :: "string \<Rightarrow> error + page"
  api_key :: "string option"
  generate_content :: "string \<Rightarrow> nat \<Rightarrow> prompt \<Rightarrow> error + response"

text \<open>
  \<^verbatim>\<open>
  def load_key() -> str:
      load_dotenv()
      k = os.getenv("GEMINI_API_KEY")
      if not k:
          raise SystemExit("set GEMINI_API_KEY in .env")
      return k
  \<close>
\<close>

definition load_key :: "world \<Rightarrow> error + string" where
  "load_key w =
     (case api_key w of
        None \<Rightarrow> Inl (SystemExit ''set GEMINI_API_KEY in .env'')
      | Some k \<Rightarrow> if k = [] then Inl (SystemExit ''set GEMINI_API_KEY in .env'') else Inr k)"

text \<open>
  \<^verbatim>\<open>
      parts = []
      for t in soup.find_all(["h1","h2","h3","p","li","blockquote"]):
          txt = t.get_text(" ", strip=True)
          if txt and len(txt.split()) >= 3: parts.append(txt)
  \<close>
\<close>

definition collect_parts :: "string list \<Rightarrow> string list" where
  "collect_parts txts = filter (\<lambda>txt. txt \<noteq> [] \<and> 3 \<le> length (py_split txt)) txts"

text \<open>
  \<^verbatim>\<open>
  def fetch_clean(url: str, timeout: int = 20) -> tuple[str, str]:
      r = requests.get(url, timeout=timeout, headers={...})
      r.raise_for_status()
      soup = BeautifulSoup(r.text, "html.parser")
      title = (soup.title.string or "").strip() if soup.title else ""
      for tag in soup([...]):
          tag.decompose()
      parts = ...
      text = re.sub(r"\s+"," ", "\n".join(parts)).strip()
      if not text:
          raise SystemExit("Could not extract readable text from the page.")
      return title, text
  \<close>
\<close>

definition fetch_clean :: "world \<Rightarrow> string \<Rightarrow> error + string \<times> string" where
  "fetch_clean w url =
     (case http_get w url of
        Inl e \<Rightarrow> Inl e
      | Inr soup \<Rightarrow>
          (let title = (case title_string soup of
                          None \<Rightarrow> []
                        | Some t \<Rightarrow> py_strip (case t of None \<Rightarrow> [] | Some x \<Rightarrow> x));
               parts = collect_parts (fragments soup);
               txt = py_strip (sub_whitespace (py_join [CHR 0x0A] parts))
           in if txt = []
              then Inl (SystemExit ''Could not extract readable text from the page.'')
              else Inr (title, txt)))"

text \<open>The text that \<open>fetch_clean\<close> computes from a parsed page, before it tests it.\<close>

definition extracted :: "page \<Rightarrow> string" where
  "extracted soup =
     py_strip (sub_whitespace (py_join [CHR 0x0A] (collect_parts (fragments soup))))"

section \<open>Parsing the answer of the model\<close>

definition starts_with :: "string \<Rightarrow> string \<Rightarrow> bool" where
  "starts_with p s = (take (length p) s = p)"

text \<open>
  \<^verbatim>\<open>re.search(r"```json\s*(\{.*?\})\s*```", s, re.S)\<close>, giving \<^verbatim>\<open>group(1)\<close>. The search
  takes the leftmost position where the pattern matches. There \<^verbatim>\<open>\s*\<close> takes the
  whole run of whitespace (the next character of the pattern is not whitespace), and
  the lazy \<^verbatim>\<open>.*?\<close> stops at the first \<^verbatim>\<open>}\<close> that whitespace and the closing fence follow.
\<close>

fun lazy_close :: "string \<Rightarrow> string option" where
  "lazy_close [] = None"
| "lazy_close (c # cs) =
     (if c = CHR ''}'' \<and> starts_with ''```'' (dropWhile is_space cs) then Some [c]
      else map_option ((#) c) (lazy_close cs))"

definition fenced_at :: "string \<Rightarrow> string option" where
  "fenced_at t =
     (if starts_with ''```json'' t
      then (case dropWhile is_space (drop 7 t) of
              [] \<Rightarrow> None
            | c # body \<Rightarrow> if c = CHR ''{'' then map_option ((#) c) (lazy_close body) else None)
      else None)"

fun search_fenced :: "string \<Rightarrow> string option" where
  "search_fenced [] = None"
| "search_fenced (c # cs) =
     (case fenced_at (c # cs) of Some g \<Rightarrow> Some g | None \<Rightarrow> search_fenced cs)"

text \<open>
  The same pattern read as a relation: it matches at the start of \<open>t\<close> with
  \<^verbatim>\<open>group(1)\<close> equal to \<open>g\<close> when \<open>t\<close> starts with the opening fence, \<open>g\<close> comes after the
  whitespace that follows the fence, \<open>g\<close> starts with \<^verbatim>\<open>{\<close> and ends with \<^verbatim>\<open>}\<close>, and the
  closing fence comes after \<open>g\<close> and the whitespace that follows it. Of the groups that
  match at one position the lazy \<^verbatim>\<open>.*?\<close> takes the shortest.
\<close>

definition fenced_match :: "string \<Rightarrow> string \<Rightarrow> bool" where
  "fenced_match t g =
     (starts_with ''```json'' t \<and>
      (let u = dropWhile is_space (drop 7 t)
       in starts_with g u \<and> 2 \<le> length g \<and> hd g = CHR ''{'' \<and> last g = CHR ''}'' \<and>
          starts_with ''```'' (dropWhile is_space (drop (length g) u))))"

text \<open>
  \<^verbatim>\<open>re.search(r"(\{.*\})", s, re.S)\<close>, giving \<^verbatim>\<open>group(1)\<close>: from the first \<^verbatim>\<open>{\<close> to the
  last \<^verbatim>\<open>}\<close> after it.
\<close>

definition search_braces :: "string \<Rightarrow> string option" where
  "search_braces s =
     (case dropWhile (\<lambda>c. c \<noteq> CHR ''{'') s of
        [] \<Rightarrow> None
      | t \<Rightarrow> (let j = rfind t (CHR ''}'') in if 0 \<le> j then Some (take (nat j + 1) t) else None))"

text \<open>
  \<^verbatim>\<open>
  def parse_json(s: str) -> dict:
      try:
          return json.loads(s)
      except Exception:
          m = re.search(r"```json\s*(\{.*?\})\s*```", s, re.S) or re.search(r"(\{.*\})", s, re.S)
          if m:
              try: return json.loads(m.group(1))
              except Exception: pass
      return {"abstract": s.strip(), "bullets": []}
  \<close>
  \<^verbatim>\<open>json.loads\<close> is the parameter \<open>loads\<close>; it gives \<open>None\<close> where \<^verbatim>\<open>json.loads\<close> raises
  (a \<^verbatim>\<open>JSONDecodeError\<close> or a \<^verbatim>\<open>RecursionError\<close>, both caught by \<^verbatim>\<open>except Exception\<close>).
\<close>

definition parse_json :: "(string \<Rightarrow> json option) \<Rightarrow> string \<Rightarrow> json" where
  "parse_json loads s =
     (case loads s of
        Some v \<Rightarrow> v
      | None \<Rightarrow>
          (let m = (case search_fenced s of Some g \<Rightarrow> Some g | None \<Rightarrow> search_braces s)
           in case (case m of None \<Rightarrow> None | Some g \<Rightarrow> loads g) of
                Some v \<Rightarrow> v
              | None \<Rightarrow> JObject [(''abstract'', JString (py_strip s)), (''bullets'', JArray [])]))"

section \<open>A decoder for a fragment of JSON\<close>

text \<open>
  The theorems about the program hold for every decoder \<open>loads\<close>. The examples need one
  that computes: \<open>json_loads\<close> follows \<^verbatim>\<open>json.loads\<close> (the scanner of \<^verbatim>\<open>json.decoder\<close>) on
  documents of objects, arrays, strings, integers and \<^verbatim>\<open>null, true, false\<close>. Outside
  this fragment (a number with a fraction or an exponent, \<^verbatim>\<open>NaN\<close>, \<^verbatim>\<open>Infinity\<close>, a
  \<^verbatim>\<open>\u\<close> escape) it gives \<open>None\<close>. The recursion is bounded by a counter that starts
  above the length of the document; each call reads at least one character.
\<close>

definition json_space :: "char \<Rightarrow> bool" where
  "json_space c = (c \<in> set [CHR 0x20, CHR 0x09, CHR 0x0A, CHR 0x0D])"

definition is_digit :: "char \<Rightarrow> bool" where
  "is_digit c = (c \<in> set ''0123456789'')"

definition unescape :: "char \<Rightarrow> char option" where
  "unescape e =
     (if e = CHR 0x22 then Some (CHR 0x22)
      else if e = CHR 0x5C then Some (CHR 0x5C)
      else if e = CHR ''/'' then Some (CHR ''/'')
      else if e = CHR ''b'' then Some (CHR 0x08)
      else if e = CHR ''f'' then Some (CHR 0x0C)
      else if e = CHR ''n'' then Some (CHR 0x0A)
      else if e = CHR ''r'' then Some (CHR 0x0D)
      else if e = CHR ''t'' then Some (CHR 0x09)
      else None)"

text \<open>The string after its opening quote: its content and what follows the closing quote.\<close>

fun scan_string :: "string \<Rightarrow> string \<Rightarrow> (string \<times> string) option" where
  "scan_string acc [] = None"
| "scan_string acc [c] = (if c = CHR 0x22 then Some (acc, []) else None)"
| "scan_string acc (c # e # cs) =
     (if c = CHR 0x22 then Some (acc, e # cs)
      else if c = CHR 0x5C
        then (case unescape e of None \<Rightarrow> None | Some x \<Rightarrow> scan_string (acc @ [x]) cs)
      else if of_char c < (32::nat) then None
      else scan_string (acc @ [c]) (e # cs))"

fun digits_value :: "nat \<Rightarrow> string \<Rightarrow> nat" where
  "digits_value a [] = a"
| "digits_value a (c # cs) = digits_value (10 * a + (of_char c - 48)) cs"

text \<open>The integer part of a number: \<^verbatim>\<open>-?(?:0|[1-9]\d*)\<close>.\<close>

definition scan_digits :: "string \<Rightarrow> (nat \<times> string) option" where
  "scan_digits cs =
     (case cs of
        [] \<Rightarrow> None
      | c # r \<Rightarrow>
          if c = CHR ''0'' then Some (0, r)
          else if is_digit c
            then Some (digits_value 0 (takeWhile is_digit cs), dropWhile is_digit cs)
          else None)"

definition scan_number :: "string \<Rightarrow> (json \<times> string) option" where
  "scan_number cs =
     (case cs of
        [] \<Rightarrow> None
      | c # r \<Rightarrow>
          if c = CHR ''-''
          then map_option (\<lambda>(k, r'). (JInt (- int k), r')) (scan_digits r)
          else map_option (\<lambda>(k, r'). (JInt (int k), r')) (scan_digits cs))"

fun scan_once :: "nat \<Rightarrow> string \<Rightarrow> (json \<times> string) option"
  and scan_elems :: "nat \<Rightarrow> json list \<Rightarrow> string \<Rightarrow> (json \<times> string) option"
  and scan_members :: "nat \<Rightarrow> (string \<times> json) list \<Rightarrow> string \<Rightarrow> (json \<times> string) option"
  where
  "scan_once 0 cs = None"
| "scan_once (Suc f) [] = None"
| "scan_once (Suc f) (c # cs) =
     (if c = CHR 0x22 then map_option (\<lambda>(s, r). (JString s, r)) (scan_string [] cs)
      else if c = CHR ''{''
        then (case dropWhile json_space cs of
                [] \<Rightarrow> None
              | d # ds \<Rightarrow> if d = CHR ''}'' then Some (JObject [], ds)
                         else scan_members f [] (d # ds))
      else if c = CHR ''[''
        then (case dropWhile json_space cs of
                [] \<Rightarrow> None
              | d # ds \<Rightarrow> if d = CHR '']'' then Some (JArray [], ds)
                         else scan_elems f [] (d # ds))
      else if starts_with ''null'' (c # cs) then Some (JNull, drop 4 (c # cs))
      else if starts_with ''true'' (c # cs) then Some (JBool True, drop 4 (c # cs))
      else if starts_with ''false'' (c # cs) then Some (JBool False, drop 5 (c # cs))
      else scan_number (c # cs))"
| "scan_elems 0 acc cs = None"
| "scan_elems (Suc f) acc cs =
     (case scan_once f cs of
        None \<Rightarrow> None
      | Some (v, r) \<Rightarrow>
          (case dropWhile json_space r of
             [] \<Rightarrow> None
           | d # ds \<Rightarrow>
               if d = CHR '']'' then Some (JArray (acc @ [v]), ds)
               else if d = CHR '','' then scan_elems f (acc @ [v]) (dropWhile json_space ds)
               else None))"
| "scan_members 0 acc cs = None"
| "scan_members (Suc f) acc cs =
     (case cs of
        [] \<Rightarrow> None
      | q # cs1 \<Rightarrow>
          if q \<noteq> CHR 0x22 then None
          else (case scan_string [] cs1 of
                  None \<Rightarrow> None
                | Some (k, r) \<Rightarrow>
                    (case dropWhile json_space r of
                       [] \<Rightarrow> None
                     | col # r1 \<Rightarrow>
                         if col \<noteq> CHR '':'' then None
                         else (case scan_once f (dropWhile json_space r1) of
                                 None \<Rightarrow> None
                               | Some (v, r2) \<Rightarrow>
                                   (case dropWhile json_space r2 of
                                      [] \<Rightarrow> None
                                    | d # ds \<Rightarrow>
                                        if d = CHR ''}'' then Some (JObject (dict_set acc k v), ds)
                                        else if d = CHR '',''
                                          then scan_members f (dict_set acc k v)
                                                 (dropWhile json_space ds)
                                        else None)))))"

definition json_loads :: "string \<Rightarrow> json option" where
  "json_loads s =
     (case scan_once (Suc (length s)) (dropWhile json_space s) of
        None \<Rightarrow> None
      | Some (v, r) \<Rightarrow> if dropWhile json_space r = [] then Some v else None)"

section \<open>The summarizer\<close>

text \<open>
  \<^verbatim>\<open>
  def make_model(model_name="gemini-2.5-flash"):
      genai.configure(api_key=load_key())
      try:
          return genai.GenerativeModel(model_name,
              generation_config={"response_mime_type":"application/json"})
      except Exception:
          return genai.GenerativeModel(model_name)
  \<close>
  The handle returned is what the calls of \<^verbatim>\<open>generate_content\<close> will answer.
\<close>

definition make_model :: "world \<Rightarrow> string \<Rightarrow> error + (nat \<Rightarrow> prompt \<Rightarrow> error + response)" where
  "make_model w model_name =
     (case load_key w of Inl e \<Rightarrow> Inl e | Inr k \<Rightarrow> Inr (generate_content w model_name))"

text \<open>
  \<^verbatim>\<open>
  def summarize_block(model, text: str, bullets=6, max_words=180) -> dict:
      prompt = {
          "role": "user",
          "parts": [(
              "You are a precise, neutral summarizer. "
              "Return STRICT JSON only with keys: abstract, bullets.\n"
              f'Format: {{"abstract":"<= {max_words} words","bullets":["up to {bullets} key points"]}}\n\n'
              f"CONTENT:\n{text[:16000]}"
          )]
      }
      resp = model.generate_content(prompt)
      out = getattr(resp, "text", None)
      if out is None and getattr(resp, "candidates", None):
          parts = resp.candidates[0].content.parts
          out = "".join(getattr(p, "text", "") for p in parts)
      if not out: out = ""
      return parse_json(out)
  \<close>
  The first argument is the decoder, the second the answer of the model to this call.
\<close>

definition make_prompt :: "string \<Rightarrow> int \<Rightarrow> int \<Rightarrow> prompt" where
  "make_prompt txt bullets max_words =
     \<lparr>prompt_role = ''user'',
      prompt_parts =
        [''You are a precise, neutral summarizer. ''
         @ ''Return STRICT JSON only with keys: abstract, bullets.\<newline>''
         @ ''Format: {\"abstract\":\"<= '' @ str_int max_words
         @ '' words\",\"bullets\":[\"up to '' @ str_int bullets @ '' key points\"]}\<newline>\<newline>''
         @ ''CONTENT:\<newline>'' @ py_slice txt 0 16000]\<rparr>"

definition response_text :: "response \<Rightarrow> string" where
  "response_text resp =
     (let out = (case resp_text resp of
                   Some t \<Rightarrow> Some t
                 | None \<Rightarrow> (case candidates resp of
                              [] \<Rightarrow> None
                            | c # cs \<Rightarrow> Some (concat (map (\<lambda>p. case p of None \<Rightarrow> [] | Some t \<Rightarrow> t) c))))
      in case out of None \<Rightarrow> [] | Some t \<Rightarrow> t)"

definition summarize_block ::
  "(string \<Rightarrow> json option) \<Rightarrow> (prompt \<Rightarrow> error + response) \<Rightarrow> string \<Rightarrow> int \<Rightarrow> int \<Rightarrow> error + json"
  where
  "summarize_block loads model txt bullets max_words =
     (case model (make_prompt txt bullets max_words) of
        Inl e \<Rightarrow> Inl e
      | Inr resp \<Rightarrow> Inr (parse_json loads (response_text resp)))"

text \<open>
  The comprehension \<^verbatim>\<open>[summarize_block(model, c, ...) for c in chunks(text)]\<close>: the
  chunks are summarized in order, the call for the first one being call number \<open>k\<close>
  of the run, and the first exception ends the run.
\<close>

fun summarize_chunks ::
  "(string \<Rightarrow> json option) \<Rightarrow> (nat \<Rightarrow> prompt \<Rightarrow> error + response) \<Rightarrow> nat \<Rightarrow> int \<Rightarrow> int \<Rightarrow>
   string list \<Rightarrow> error + json list" where
  "summarize_chunks loads model k bullets max_words [] = Inr []"
| "summarize_chunks loads model k bullets max_words (c # cs) =
     (case summarize_block loads (model k) c bullets max_words of
        Inl e \<Rightarrow> Inl e
      | Inr v \<Rightarrow>
          (case summarize_chunks loads model (Suc k) bullets max_words cs of
             Inl e \<Rightarrow> Inl e
           | Inr vs \<Rightarrow> Inr (v # vs)))"

text \<open>
  \<^verbatim>\<open>merged_abs = " ".join(s.get("abstract","") for s in sect)[:20000]\<close>.
  \<^verbatim>\<open>join\<close> first runs the generator to its end, so a section that is no dict raises
  \<^verbatim>\<open>AttributeError\<close> before an abstract that is no string raises \<^verbatim>\<open>TypeError\<close>.
\<close>

fun get_all :: "json list \<Rightarrow> string \<Rightarrow> json \<Rightarrow> error + json list" where
  "get_all [] k dflt = Inr []"
| "get_all (s # ss) k dflt =
     (case py_get s k dflt of
        Inl e \<Rightarrow> Inl e
      | Inr v \<Rightarrow> (case get_all ss k dflt of Inl e \<Rightarrow> Inl e | Inr vs \<Rightarrow> Inr (v # vs)))"

fun strings_of :: "json list \<Rightarrow> error + string list" where
  "strings_of [] = Inr []"
| "strings_of (JString s # vs) =
     (case strings_of vs of Inl e \<Rightarrow> Inl e | Inr ss \<Rightarrow> Inr (s # ss))"
| "strings_of (v # vs) = Inl TypeError"

definition merged_abs :: "json list \<Rightarrow> error + string" where
  "merged_abs sect =
     (case get_all sect ''abstract'' (JString []) of
        Inl e \<Rightarrow> Inl e
      | Inr vs \<Rightarrow>
          (case strings_of vs of
             Inl e \<Rightarrow> Inl e
           | Inr ss \<Rightarrow> Inr (py_slice (py_join '' '' ss) 0 20000)))"

text \<open>
  \<^verbatim>\<open>merged_bul = sum((s.get("bullets",[]) for s in sect), [])[:bullets]\<close>.
  \<^verbatim>\<open>sum\<close> adds the values to the list one by one; adding a value that is no list
  raises \<^verbatim>\<open>TypeError\<close>.
\<close>

fun sum_lists :: "json list \<Rightarrow> json list \<Rightarrow> error + json list" where
  "sum_lists acc [] = Inr acc"
| "sum_lists acc (s # ss) =
     (case py_get s ''bullets'' (JArray []) of
        Inl e \<Rightarrow> Inl e
      | Inr (JArray xs) \<Rightarrow> sum_lists (acc @ xs) ss
      | Inr v \<Rightarrow> Inl TypeError)"

definition merged_bul :: "json list \<Rightarrow> int \<Rightarrow> error + json list" where
  "merged_bul sect bullets =
     (case sum_lists [] sect of Inl e \<Rightarrow> Inl e | Inr xs \<Rightarrow> Inr (py_slice xs 0 bullets))"

text \<open>
  \<^verbatim>\<open>
      final.setdefault("abstract", merged_abs[:max_words*8])
      final["bullets"] = final.get("bullets", []) or merged_bul
      final["title"], final["url"] = title, url
      return final
  \<close>
  A \<open>final\<close> that is no dict has none of these methods.
\<close>

definition finish ::
  "json \<Rightarrow> string \<Rightarrow> json list \<Rightarrow> int \<Rightarrow> string \<Rightarrow> string \<Rightarrow> error + json" where
  "finish final mabs mbul max_words title url =
     (case final of
        JObject d \<Rightarrow>
          (let d1 = dict_setdefault d ''abstract'' (JString (py_slice mabs 0 (max_words * 8)));
               b = dict_get d1 ''bullets'' (JArray []);
               d2 = dict_set d1 ''bullets'' (if truthy b then b else JArray mbul);
               d3 = dict_set d2 ''title'' (JString title);
               d4 = dict_set d3 ''url'' (JString url)
           in Inr (JObject d4))
      | _ \<Rightarrow> Inl AttributeError)"

text \<open>
  \<^verbatim>\<open>
  def summarize_url(url: str, model_name="gemini-2.5-flash", bullets=6, max_words=180) -> dict:
      title, text = fetch_clean(url)
      model = make_model(model_name)
      sect = [summarize_block(model, c, bullets=min(7, bullets), max_words=min(220, max_words)) for c in chunks(text)]
      merged_abs = " ".join(s.get("abstract","") for s in sect)[:20000]
      merged_bul = sum((s.get("bullets",[]) for s in sect), [])[:bullets]
      final = summarize_block(model, merged_abs, bullets=bullets, max_words=max_words)
      ...
      return final
  \<close>
\<close>

definition summarize_url ::
  "(string \<Rightarrow> json option) \<Rightarrow> world \<Rightarrow> string \<Rightarrow> string \<Rightarrow> int \<Rightarrow> int \<Rightarrow> error + json" where
  "summarize_url loads w url model_name bullets max_words =
     (case fetch_clean w url of
        Inl e \<Rightarrow> Inl e
      | Inr (title, txt) \<Rightarrow>
     (case make_model w model_name of
        Inl e \<Rightarrow> Inl e
      | Inr model \<Rightarrow>
     (case summarize_chunks loads model 0 (min 7 bullets) (min 220 max_words)
             (chunks txt 12000 400) of
        Inl e \<Rightarrow> Inl e
      | Inr sect \<Rightarrow>
     (case merged_abs sect of
        Inl e \<Rightarrow> Inl e
      | Inr mabs \<Rightarrow>
     (case merged_bul sect bullets of
        Inl e \<Rightarrow> Inl e
      | Inr mbul \<Rightarrow>
     (case summarize_block loads (model (length sect)) mabs bullets max_words of
        Inl e \<Rightarrow> Inl e
      | Inr final \<Rightarrow> finish final mabs mbul max_words title url))))))"

section \<open>Example runs\<close>

text \<open>
  A page with one paragraph, and a model that answers the summary of the chunk
  with two bullets and the final call with the text \<open>reply\<close>.
\<close>

definition example_page :: page where
  "example_page =
     \<lparr>title_string = Some (Some '' Example ''),
      fragments = [''Menu'', ''Home page'', ''three short words'']\<rparr>"

definition example_world :: "string \<Rightarrow> world" where
  "example_world reply =
     \<lparr>http_get = (\<lambda>url. Inr example_page),
      api_key = Some ''key'',
      generate_content = (\<lambda>name k p.
         Inr \<lparr>resp_text =
                 Some (if k = 0 then ''{\"abstract\":\"one\",\"bullets\":[\"a\",\"b\"]}'' else reply),
              candidates = []\<rparr>)\<rparr>"

text \<open>A text of 12001 characters in three words.\<close>

definition long_text :: string where
  "long_text = ''a a a'' @ replicate 11996 (CHR ''a'')"

definition long_world :: world where
  "long_world =
     \<lparr>http_get = (\<lambda>url. Inr \<lparr>title_string = None, fragments = [long_text]\<rparr>),
      api_key = Some ''key'',
      generate_content = (\<lambda>name k p. Inl ModelError)\<rparr>"

text \<open>
  A page with two paragraphs, the first of them \<open>long_text\<close>, and the text that
  \<open>fetch_clean\<close> extracts from it: 12007 characters.
\<close>

definition joined_text :: string where
  "joined_text = long_text @ '' b b b''"

definition joined_world :: world where
  "joined_world =
     \<lparr>http_get = (\<lambda>url. Inr \<lparr>title_string = None, fragments = [long_text, ''b b b'']\<rparr>),
      api_key = Some ''key'',
      generate_content = (\<lambda>name k p. Inl ModelError)\<rparr>"

subsection \<open>Slices and \<open>rfind\<close>\<close>

lemma past_sixty_iff: "(real_of_int n * 0.6 < real_of_int j) = (3 * n < 5 * j)"
proof -
  have "(real_of_int n * 0.6 < real_of_int j) = (real_of_int (3 * n) < real_of_int (5 * j))"
    by (simp add: mult.commute)
  then show ?thesis by (simp only: of_int_less_iff)
qed

lemma window_eq:
  assumes "0 \<le> i" "0 \<le> n"
  shows "py_slice s i (i + n) = take (nat n) (drop (nat i) s)"
proof (cases "nat i < length s")
  case True
  have a: "slice_index (length s) i = nat i"
    using assms True by (simp add: slice_index_def)
  have b: "slice_index (length s) (i + n) = min (length s) (nat i + nat n)"
    using assms by (simp add: slice_index_def nat_add_distrib)
  have "take (min (length s) (nat i + nat n) - nat i) (drop (nat i) s) = take (nat n) (drop (nat i) s)"
  proof (cases "nat i + nat n \<le> length s")
    case True
    then show ?thesis by (simp add: min_def)
  next
    case False
    then show ?thesis by (simp add: min_def)
  qed
  with a b show ?thesis by (simp add: py_slice_def Let_def)
next
  case False
  then have "slice_index (length s) i = length s"
    using assms by (simp add: slice_index_def)
  with False show ?thesis
    by (simp add: py_slice_def Let_def)
qed

lemma prefix_slice: "0 \<le> j \<Longrightarrow> py_slice s 0 j = take (nat j) s"
  by (cases "nat j \<le> length s") (simp_all add: py_slice_def slice_index_def Let_def min_def)

lemma take_min_length: "take (min (length d) k) d = take k d"
  by (cases "k \<le> length d") (simp_all add: min_def)

lemma rfind_bounds: "- 1 \<le> rfind s c \<and> rfind s c < int (length s)"
  by (induction s) (auto simp: Let_def)

lemma rfind_nth: "0 \<le> rfind s c \<Longrightarrow> s ! nat (rfind s c) = c"
proof (induction s)
  case Nil
  then show ?case by simp
next
  case (Cons x xs)
  show ?case
  proof (cases "0 \<le> rfind xs c")
    case True
    with Cons.IH show ?thesis by (simp add: Let_def nat_add_distrib)
  next
    case False
    with Cons.prems show ?thesis by (simp add: Let_def split: if_splits)
  qed
qed

lemma rfind_last: "rfind s c < int k \<Longrightarrow> k < length s \<Longrightarrow> s ! k \<noteq> c"
proof (induction s arbitrary: k)
  case Nil
  then show ?case by simp
next
  case (Cons x xs)
  show ?case
  proof (cases k)
    case 0
    with Cons.prems show ?thesis by (simp add: Let_def split: if_splits)
  next
    case (Suc m)
    with Cons.prems have "rfind xs c < int m" "m < length xs"
      by (auto simp: Let_def split: if_splits)
    with Cons.IH Suc show ?thesis by simp
  qed
qed

lemma rfind_absent: "c \<notin> set s \<Longrightarrow> rfind s c = - 1"
  by (induction s) (auto simp: Let_def)

lemma rfind_present: "c \<in> set s \<Longrightarrow> 0 \<le> rfind s c"
  by (induction s) (auto simp: Let_def)

subsection \<open>One iteration of the chunker\<close>

lemma chunk_seg_eq:
  assumes "0 \<le> i" "1 \<le> n"
  shows "chunk_seg s n i =
           (let w = take (nat n) (drop (nat i) s); j = rfind w (CHR 0x0A)
            in if 3 * n < 5 * j then take (nat j) w else w)"
proof -
  have "0 \<le> rfind w c" if "3 * n < 5 * rfind w c" for w c
    using that assms by linarith
  with assms show ?thesis
    by (simp add: chunk_seg_def window_eq past_sixty_iff prefix_slice Let_def)
qed

lemma chunk_seg_is_prefix:
  assumes "0 \<le> i" "1 \<le> n"
  shows "chunk_seg s n i = take (length (chunk_seg s n i)) (drop (nat i) s)"
proof -
  define w where "w = take (nat n) (drop (nat i) s)"
  define j where "j = rfind w (CHR 0x0A)"
  have jw: "j < int (length w)" using rfind_bounds[of w] by (simp add: j_def)
  have wn: "length w \<le> nat n" by (simp add: w_def)
  show ?thesis
  proof (cases "3 * n < 5 * j")
    case True
    with assms have "chunk_seg s n i = take (nat j) w"
      by (simp add: chunk_seg_eq Let_def w_def j_def)
    moreover have "nat j \<le> length w" "nat j \<le> nat n"
      using jw wn by linarith+
    ultimately show ?thesis by (simp add: w_def min_def take_take)
  next
    case False
    with assms have "chunk_seg s n i = w"
      by (simp add: chunk_seg_eq Let_def w_def j_def)
    moreover have "w = take (length w) (drop (nat i) s)"
      using take_min_length[of "drop (nat i) s" "nat n"] by (simp add: w_def)
    ultimately show ?thesis by simp
  qed
qed

lemma chunk_seg_nonempty:
  assumes "0 \<le> i" "i < int (length s)" "1 \<le> n"
  shows "1 \<le> length (chunk_seg s n i)"
proof -
  define w where "w = take (nat n) (drop (nat i) s)"
  define j where "j = rfind w (CHR 0x0A)"
  have jw: "j < int (length w)" using rfind_bounds[of w] by (simp add: j_def)
  have "nat i < length s" "0 < nat n" using assms by linarith+
  then have wl: "1 \<le> length w" unfolding w_def length_take length_drop by arith
  show ?thesis
  proof (cases "3 * n < 5 * j")
    case True
    with assms have "chunk_seg s n i = take (nat j) w"
      by (simp add: chunk_seg_eq Let_def w_def j_def)
    moreover have "1 \<le> nat j" "nat j \<le> length w"
      using True assms jw by linarith+
    ultimately show ?thesis by simp
  next
    case False
    with assms have "chunk_seg s n i = w"
      by (simp add: chunk_seg_eq Let_def w_def j_def)
    with wl show ?thesis by simp
  qed
qed

lemma chunk_seg_length_le:
  assumes "0 \<le> i" "1 \<le> n"
  shows "length (chunk_seg s n i) \<le> min (nat n) (length s - nat i)"
proof -
  show ?thesis
    using assms by (auto simp: chunk_seg_eq Let_def min_le_iff_disj)
qed

text \<open>A chunk that stops before the end of the input is not the last one.\<close>

lemma chunk_seg_stops_early:
  assumes "0 \<le> i" "1 \<le> n" "0 \<le> overlap"
    and "i + int (length (chunk_seg s n i)) < int (length s)"
  shows "i + max 1 (int (length (chunk_seg s n i)) - overlap) < int (length s)"
proof -
  have "i < int (length s)" using assms by linarith
  then have "1 \<le> length (chunk_seg s n i)"
    using assms chunk_seg_nonempty by simp
  with assms show ?thesis by linarith
qed

text \<open>A chunk that is not the last one: the next offset is still inside the input.\<close>

lemma chunk_seg_reaches_end:
  assumes "0 \<le> i" "i < int (length s)" "1 \<le> n" "0 \<le> overlap"
    and "\<not> i + max 1 (int (length (chunk_seg s n i)) - overlap) < int (length s)"
  shows "i + int (length (chunk_seg s n i)) = int (length s)"
proof -
  have "length (chunk_seg s n i) \<le> length s - nat i"
    using chunk_seg_length_le[of i n s] assms by simp
  then have "i + int (length (chunk_seg s n i)) \<le> int (length s)"
    using assms by linarith
  moreover have "\<not> i + int (length (chunk_seg s n i)) < int (length s)"
    using chunk_seg_stops_early[of i n overlap s] assms by blast
  ultimately show ?thesis by linarith
qed

subsection \<open>The loop of the chunker\<close>

lemma chunks_loop_map:
  "chunks_loop s n overlap i = map (chunk_seg s n) (loop_offsets s n overlap i)"
proof (induction s n overlap i rule: loop_offsets.induct)
  case (1 s n overlap i)
  show ?case
  proof (cases "i < int (length s)")
    case True
    with "1.IH" show ?thesis
      by (subst chunks_loop.simps, subst loop_offsets.simps) (simp add: Let_def)
  next
    case False
    then show ?thesis
      by (subst chunks_loop.simps, subst loop_offsets.simps) simp
  qed
qed

lemma loop_offsets_Nil: "\<not> i < int (length s) \<Longrightarrow> loop_offsets s n overlap i = []"
  by (subst loop_offsets.simps) simp

lemma loop_offsets_Cons:
  "i < int (length s) \<Longrightarrow>
   loop_offsets s n overlap i =
     i # loop_offsets s n overlap (i + max 1 (int (length (chunk_seg s n i)) - overlap))"
  by (subst loop_offsets.simps) simp

lemma loop_offsets_range:
  "x \<in> set (loop_offsets s n overlap i) \<Longrightarrow> i \<le> x \<and> x < int (length s)"
proof (induction s n overlap i rule: loop_offsets.induct)
  case (1 s n overlap i)
  show ?case
  proof (cases "i < int (length s)")
    case True
    with "1.prems" have "x = i \<or>
        x \<in> set (loop_offsets s n overlap (i + max 1 (int (length (chunk_seg s n i)) - overlap)))"
      by (simp add: loop_offsets_Cons)
    with True "1.IH" show ?thesis by fastforce
  next
    case False
    with "1.prems" show ?thesis by (simp add: loop_offsets_Nil)
  qed
qed

lemma loop_offsets_chain:
  assumes "0 \<le> i" "1 \<le> n" "0 \<le> overlap"
  shows "successively (\<lambda>a b. b \<le> a + int (length (chunk_seg s n a)))
           (loop_offsets s n overlap i)"
  using assms
proof (induction s n overlap i rule: loop_offsets.induct)
  case (1 s n overlap i)
  show ?case
  proof (cases "i < int (length s)")
    case True
    define i' where "i' = i + max 1 (int (length (chunk_seg s n i)) - overlap)"
    have len: "1 \<le> length (chunk_seg s n i)"
      using chunk_seg_nonempty True "1.prems" by simp
    have step: "i' \<le> i + int (length (chunk_seg s n i))"
      using len "1.prems" by (simp add: i'_def)
    have "0 \<le> i'" using "1.prems" by (simp add: i'_def)
    with "1.IH" True "1.prems" have tl: "successively (\<lambda>a b. b \<le> a + int (length (chunk_seg s n a)))
           (loop_offsets s n overlap i')"
      by (simp add: i'_def)
    have "loop_offsets s n overlap i' = [] \<or> hd (loop_offsets s n overlap i') = i'"
      by (cases "i' < int (length s)") (simp_all add: loop_offsets_Nil loop_offsets_Cons)
    with tl step show ?thesis
      unfolding loop_offsets_Cons[OF True] i'_def[symmetric]
      by (auto simp: successively_Cons)
  next
    case False
    then show ?thesis by (simp add: loop_offsets_Nil)
  qed
qed

lemma loop_offsets_last:
  assumes "0 \<le> i" "i < int (length s)" "1 \<le> n" "0 \<le> overlap"
  shows "last (loop_offsets s n overlap i)
           + int (length (chunk_seg s n (last (loop_offsets s n overlap i)))) = int (length s)"
  using assms
proof (induction s n overlap i rule: loop_offsets.induct)
  case (1 s n overlap i)
  define i' where "i' = i + max 1 (int (length (chunk_seg s n i)) - overlap)"
  have unfold: "loop_offsets s n overlap i = i # loop_offsets s n overlap i'"
    using "1.prems" by (simp add: loop_offsets_Cons i'_def)
  show ?case
  proof (cases "i' < int (length s)")
    case True
    have "0 \<le> i'" using "1.prems" by (simp add: i'_def)
    with "1.IH" "1.prems" True
    have "last (loop_offsets s n overlap i')
           + int (length (chunk_seg s n (last (loop_offsets s n overlap i')))) = int (length s)"
      by (simp add: i'_def)
    moreover have "loop_offsets s n overlap i' \<noteq> []"
      using True by (simp add: loop_offsets_Cons)
    ultimately show ?thesis by (simp add: unfold)
  next
    case False
    then have "loop_offsets s n overlap i' = []" by (simp add: loop_offsets_Nil)
    moreover have "i + int (length (chunk_seg s n i)) = int (length s)"
      using chunk_seg_reaches_end[of i s n overlap] "1.prems" False by (simp add: i'_def)
    ultimately show ?thesis by (simp add: unfold)
  qed
qed

lemma loop_offsets_cover:
  assumes "0 \<le> i" "1 \<le> n" "0 \<le> overlap" "i \<le> p" "p < int (length s)"
  shows "\<exists>x \<in> set (loop_offsets s n overlap i).
           x \<le> p \<and> p < x + int (length (chunk_seg s n x))"
  using assms
proof (induction s n overlap i rule: loop_offsets.induct)
  case (1 s n overlap i)
  define i' where "i' = i + max 1 (int (length (chunk_seg s n i)) - overlap)"
  have inside: "i < int (length s)" using "1.prems" by linarith
  have unfold: "loop_offsets s n overlap i = i # loop_offsets s n overlap i'"
    using inside by (simp add: loop_offsets_Cons i'_def)
  show ?case
  proof (cases "p < i + int (length (chunk_seg s n i))")
    case True
    with "1.prems" show ?thesis by (simp add: unfold)
  next
    case False
    have len: "1 \<le> length (chunk_seg s n i)"
      using chunk_seg_nonempty inside "1.prems" by simp
    have "i' \<le> p" using False len "1.prems" by (simp add: i'_def)
    moreover have "0 \<le> i'" using "1.prems" by (simp add: i'_def)
    ultimately have "\<exists>x \<in> set (loop_offsets s n overlap i').
           x \<le> p \<and> p < x + int (length (chunk_seg s n x))"
      using "1.IH" inside "1.prems" by (simp add: i'_def)
    then show ?thesis by (auto simp: unfold)
  qed
qed

lemma successively_nth:
  "successively P xs \<Longrightarrow> Suc k < length xs \<Longrightarrow> P (xs ! k) (xs ! Suc k)"
proof (induction P xs arbitrary: k rule: successively.induct)
  case (3 P x y xs)
  then show ?case by (cases k) auto
qed simp_all

subsection \<open>Whitespace\<close>

lemma newline_is_space: "is_space (CHR 0x0A)"
  by (simp add: is_space_def)

lemma split_from_spaces:
  "\<forall>c\<in>set s. is_space c \<Longrightarrow> split_from w s = (if w = [] then [] else [w])"
  by (induction s arbitrary: w) auto

lemma split_from_words:
  "\<forall>c\<in>set u. \<not> is_space c \<Longrightarrow> split_from w u = (if w @ u = [] then [] else [w @ u])"
  by (induction u arbitrary: w) auto

lemma split_from_space:
  "is_space c \<Longrightarrow> split_from w (u @ c # v) = split_from w u @ split_from [] v"
  by (induction u arbitrary: w) auto

lemma py_split_empty: "py_split [] = []"
  by (simp add: py_split_def)

lemma py_split_nonempty_has_word:
  "py_split s \<noteq> [] \<Longrightarrow> \<exists>c\<in>set s. \<not> is_space c"
  using split_from_spaces[of s "[]"] by (auto simp: py_split_def)

lemma sub_from_keeps: "c \<in> set s \<Longrightarrow> \<not> is_space c \<Longrightarrow> c \<in> set (sub_from r s)"
  by (induction s arbitrary: r) auto

lemma sub_from_spaces:
  "c \<in> set (sub_from r s) \<Longrightarrow> is_space c \<Longrightarrow> c = CHR '' ''"
  by (induction s arbitrary: r) (auto split: if_splits)

lemma sub_from_words: "\<forall>c\<in>set u. \<not> is_space c \<Longrightarrow> sub_from r u = u"
  by (induction u arbitrary: r) auto

lemma py_strip_subset: "set (py_strip s) \<subseteq> set s"
proof -
  have "set (dropWhile is_space (rev (dropWhile is_space s))) \<subseteq> set (rev (dropWhile is_space s))"
    by (rule set_dropWhileD[THEN subsetI])
  also have "\<dots> \<subseteq> set s"
    using set_dropWhileD[of _ is_space s] by auto
  finally show ?thesis by (simp add: py_strip_def)
qed

lemma dropWhile_keeps: "c \<in> set s \<Longrightarrow> \<not> P c \<Longrightarrow> c \<in> set (dropWhile P s)"
  by (induction s) auto

lemma py_strip_keeps: "c \<in> set s \<Longrightarrow> \<not> is_space c \<Longrightarrow> c \<in> set (py_strip s)"
  using dropWhile_keeps[of c "rev (dropWhile is_space s)" is_space]
        dropWhile_keeps[of c s is_space]
  by (simp add: py_strip_def)

lemma py_strip_trimmed:
  "s \<noteq> [] \<Longrightarrow> \<not> is_space (hd s) \<Longrightarrow> \<not> is_space (last s) \<Longrightarrow> py_strip s = s"
proof -
  assume a: "s \<noteq> []" "\<not> is_space (hd s)" "\<not> is_space (last s)"
  then have "dropWhile is_space s = s" by (cases s) simp_all
  moreover have "dropWhile is_space (rev s) = rev s"
    using a by (cases "rev s") (simp_all add: last_rev[symmetric] hd_rev)
  ultimately show ?thesis by (simp add: py_strip_def)
qed

lemma py_join_member: "x \<in> set xs \<Longrightarrow> c \<in> set x \<Longrightarrow> c \<in> set (py_join sep xs)"
  by (induction sep xs rule: py_join.induct) auto

subsection \<open>The extracted text\<close>

lemma collect_parts_filter:
  "collect_parts txts = filter (\<lambda>txt. 3 \<le> length (py_split txt)) txts"
proof -
  have "(x \<noteq> [] \<and> 3 \<le> length (py_split x)) = (3 \<le> length (py_split x))" for x
    by (cases "x = []") (simp_all add: py_split_empty)
  then show ?thesis by (simp add: collect_parts_def)
qed

lemma fetch_clean_fetched:
  "http_get w url = Inr soup \<Longrightarrow>
   fetch_clean w url =
     (if extracted soup = []
      then Inl (SystemExit ''Could not extract readable text from the page.'')
      else Inr (case title_string soup of
                  None \<Rightarrow> []
                | Some t \<Rightarrow> py_strip (case t of None \<Rightarrow> [] | Some x \<Rightarrow> x),
                extracted soup))"
  by (simp add: fetch_clean_def extracted_def Let_def)

lemma fetch_clean_text:
  "fetch_clean w url = Inr (title, txt) \<Longrightarrow>
   \<exists>soup. http_get w url = Inr soup \<and> txt = extracted soup \<and> txt \<noteq> []"
  by (auto simp: fetch_clean_def extracted_def Let_def split: sum.splits if_splits)

lemma extracted_empty_iff: "extracted soup = [] \<longleftrightarrow> collect_parts (fragments soup) = []"
proof
  assume e: "extracted soup = []"
  show "collect_parts (fragments soup) = []"
  proof (rule ccontr)
    assume "collect_parts (fragments soup) \<noteq> []"
    then obtain x where x: "x \<in> set (collect_parts (fragments soup))"
      by (cases "collect_parts (fragments soup)") auto
    then have "py_split x \<noteq> []" by (auto simp: collect_parts_filter)
    then obtain c where c: "c \<in> set x" "\<not> is_space c"
      using py_split_nonempty_has_word by blast
    with x have "c \<in> set (py_join [CHR 0x0A] (collect_parts (fragments soup)))"
      by (simp add: py_join_member)
    with c have "c \<in> set (extracted soup)"
      by (simp add: extracted_def sub_whitespace_def sub_from_keeps py_strip_keeps)
    with e show False by simp
  qed
next
  assume "collect_parts (fragments soup) = []"
  then show "extracted soup = []"
    by (simp add: extracted_def sub_whitespace_def py_strip_def)
qed

lemma extracted_spaces: "c \<in> set (extracted soup) \<Longrightarrow> is_space c \<Longrightarrow> c = CHR '' ''"
  using py_strip_subset sub_from_spaces
  by (fastforce simp: extracted_def sub_whitespace_def)

lemma extracted_no_newline: "CHR 0x0A \<notin> set (extracted soup)"
  using extracted_spaces[of "CHR 0x0A" soup] newline_is_space by auto

lemma chunks_long:
  "\<not> int (length s) \<le> n \<Longrightarrow>
   chunks s n overlap = map (chunk_seg s n) (chunk_offsets s n overlap)"
  by (simp add: chunks_def chunk_offsets_def chunks_loop_map)

lemma chunk_offsets_long:
  "\<not> int (length s) \<le> n \<Longrightarrow> chunk_offsets s n overlap = loop_offsets s n overlap 0"
  by (simp add: chunk_offsets_def)

text \<open>
  C7. If the input is no longer than \<open>n\<close>, the chunker yields exactly one chunk, the
  input itself, whatever \<open>n\<close> and \<open>overlap\<close> are.
\<close>

theorem chunks_short_input:
  "int (length s) \<le> n \<Longrightarrow> chunks s n overlap = [s]"
  by (simp add: chunks_def)

theorem chunks_short_input_witness:
  "int (length ''hello'') \<le> 5 \<and> chunks ''hello'' 5 400 = [''hello'']"
  using chunks_short_input[of "''hello''" 5 400] by simp

text \<open>
  C1. For \<open>n \<ge> 1\<close> and \<open>overlap \<ge> 0\<close> the chunker yields a finite, non-empty list of
  chunks. The chunk number \<open>k\<close> is the substring of the input that starts at the offset
  number \<open>k\<close> of the loop; the first offset is 0, each later offset is at most the end
  of the chunk before it, and the last chunk ends at the end of the input, so every
  position of the input lies in a chunk.
\<close>

theorem chunks_cover_input:
  assumes "1 \<le> n" and "0 \<le> overlap"
  shows "chunks s n overlap \<noteq> [] \<and>
         length (chunk_offsets s n overlap) = length (chunks s n overlap) \<and>
         (\<forall>k < length (chunks s n overlap).
            0 \<le> chunk_offsets s n overlap ! k \<and>
            nat (chunk_offsets s n overlap ! k) + length (chunks s n overlap ! k) \<le> length s \<and>
            chunks s n overlap ! k =
              take (length (chunks s n overlap ! k)) (drop (nat (chunk_offsets s n overlap ! k)) s)) \<and>
         chunk_offsets s n overlap ! 0 = 0 \<and>
         (\<forall>k. Suc k < length (chunks s n overlap) \<longrightarrow>
            chunk_offsets s n overlap ! Suc k
              \<le> chunk_offsets s n overlap ! k + int (length (chunks s n overlap ! k))) \<and>
         chunk_offsets s n overlap ! (length (chunks s n overlap) - 1)
            + int (length (last (chunks s n overlap))) = int (length s) \<and>
         (\<forall>p < length s. \<exists>k < length (chunks s n overlap).
            chunk_offsets s n overlap ! k \<le> int p \<and>
            int p < chunk_offsets s n overlap ! k + int (length (chunks s n overlap ! k)))"
proof (cases "int (length s) \<le> n")
  case True
  then show ?thesis by (simp add: chunks_def chunk_offsets_def)
next
  case False
  define os where "os = loop_offsets s n overlap 0"
  have cs: "chunks s n overlap = map (chunk_seg s n) os"
    and offs: "chunk_offsets s n overlap = os"
    using False by (simp_all add: chunks_long chunk_offsets_long os_def)
  have inside: "(0::int) < int (length s)" using False assms by linarith
  have os_unfold: "os = 0 # loop_offsets s n overlap (0 + max 1 (int (length (chunk_seg s n 0)) - overlap))"
    unfolding os_def using inside by (rule loop_offsets_Cons)
  have nonempty: "os \<noteq> []" and first: "os ! 0 = 0"
    by (subst os_unfold, simp)+
  have range: "0 \<le> os ! k \<and> os ! k < int (length s)" if "k < length os" for k
    using loop_offsets_range[of "os ! k" s n overlap 0] that by (simp add: os_def)
  have piece: "0 \<le> os ! k \<and>
            nat (os ! k) + length (chunk_seg s n (os ! k)) \<le> length s \<and>
            chunk_seg s n (os ! k) =
              take (length (chunk_seg s n (os ! k))) (drop (nat (os ! k)) s)"
    if "k < length os" for k
  proof -
    have r: "0 \<le> os ! k" "os ! k < int (length s)" using range[OF that] by simp_all
    have "length (chunk_seg s n (os ! k)) \<le> length s - nat (os ! k)"
      using chunk_seg_length_le[of "os ! k" n s] r assms by simp
    moreover have "nat (os ! k) \<le> length s" using r by linarith
    ultimately have "nat (os ! k) + length (chunk_seg s n (os ! k)) \<le> length s" by linarith
    with r chunk_seg_is_prefix[of "os ! k" n s] assms show ?thesis by simp
  qed
  have chain: "os ! Suc k \<le> os ! k + int (length (chunk_seg s n (os ! k)))"
    if "Suc k < length os" for k
    using successively_nth[OF loop_offsets_chain[of 0 n overlap s] that[unfolded os_def]] assms
    by (simp add: os_def)
  have final: "os ! (length os - 1) + int (length (last (map (chunk_seg s n) os))) = int (length s)"
    using loop_offsets_last[of 0 s n overlap] inside assms nonempty
    by (simp add: os_def[symmetric] last_map last_conv_nth)
  have cover: "\<exists>k < length os. os ! k \<le> int p \<and>
                  int p < os ! k + int (length (map (chunk_seg s n) os ! k))"
    if "p < length s" for p
  proof -
    from loop_offsets_cover[of 0 n overlap "int p" s] assms that
    obtain x where "x \<in> set os" "x \<le> int p" "int p < x + int (length (chunk_seg s n x))"
      by (auto simp: os_def)
    then show ?thesis by (auto simp: in_set_conv_nth)
  qed
  show ?thesis
    unfolding cs offs using nonempty first piece chain final cover by simp
qed

theorem chunks_cover_input_witness:
  "(1::int) \<le> 4 \<and> (0::int) \<le> 1 \<and>
   chunks ''abcdefghij'' 4 1 = [''abcd'', ''defg'', ''ghij'', ''j''] \<and>
   chunk_offsets ''abcdefghij'' 4 1 = [0, 3, 6, 9] \<and>
   chunk_offsets ''abcdefghij'' 4 1 ! (length (chunks ''abcdefghij'' 4 1) - 1)
     + int (length (last (chunks ''abcdefghij'' 4 1))) = int (length ''abcdefghij'')"
proof -
  have vals: "chunks ''abcdefghij'' 4 1 = [''abcd'', ''defg'', ''ghij'', ''j'']"
    "chunk_offsets ''abcdefghij'' 4 1 = [0, 3, 6, 9]"
    by (simp_all add: chunks_def chunk_offsets_def chunks_loop.simps loop_offsets.simps
        chunk_seg_def py_slice_def slice_index_def Let_def)
  from chunks_cover_input[of 4 1 "''abcdefghij''"] vals show ?thesis by simp
qed

lemma past_sixty_nat: "(real_of_int n * 0.6 < real p) = (3 * n < 5 * int p)"
  using past_sixty_iff[of n "int p"] by simp

text \<open>
  The test of the loop in terms of the window: the last line-break of the window lies
  beyond \<open>0.6 * n\<close> exactly if some line-break of the window does.
\<close>

lemma rfind_past_sixty:
  assumes "1 \<le> n"
  shows "(real_of_int n * 0.6 < real_of_int (rfind w (CHR 0x0A))) =
         (\<exists>p<length w. w ! p = CHR 0x0A \<and> real_of_int n * 0.6 < real p)"
proof
  assume a: "real_of_int n * 0.6 < real_of_int (rfind w (CHR 0x0A))"
  then have "3 * n < 5 * rfind w (CHR 0x0A)" by (simp only: past_sixty_iff)
  with assms have pos: "0 \<le> rfind w (CHR 0x0A)" by linarith
  have "nat (rfind w (CHR 0x0A)) < length w"
    using rfind_bounds[of w "CHR 0x0A"] pos by linarith
  moreover have "w ! nat (rfind w (CHR 0x0A)) = CHR 0x0A"
    using pos by (rule rfind_nth)
  moreover have "real_of_int n * 0.6 < real (nat (rfind w (CHR 0x0A)))"
    using a pos by simp
  ultimately show "\<exists>p<length w. w ! p = CHR 0x0A \<and> real_of_int n * 0.6 < real p"
    by blast
next
  assume "\<exists>p<length w. w ! p = CHR 0x0A \<and> real_of_int n * 0.6 < real p"
  then obtain p where p: "p < length w" "w ! p = CHR 0x0A" "real_of_int n * 0.6 < real p"
    by blast
  have "\<not> rfind w (CHR 0x0A) < int p"
    using rfind_last[of w "CHR 0x0A" p] p by blast
  then have "int p \<le> rfind w (CHR 0x0A)" by simp
  then have "real_of_int (int p) \<le> real_of_int (rfind w (CHR 0x0A))"
    by (simp only: of_int_le_iff)
  then have "real p \<le> real_of_int (rfind w (CHR 0x0A))" by simp
  with p show "real_of_int n * 0.6 < real_of_int (rfind w (CHR 0x0A))" by linarith
qed

text \<open>
  C5, as the code has it. For an input longer than \<open>n\<close> (and \<open>n \<ge> 1\<close>), take the chunk
  number \<open>k\<close> and the window \<^verbatim>\<open>s[i:i+n]\<close> at its offset \<open>i\<close>. If the window has a
  line-break at an index strictly greater than \<open>0.6 * n\<close>, the chunk is the window cut
  just before its last line-break; otherwise the chunk is the whole window. A
  line-break at exactly \<open>0.6 * n\<close> does not cut the window.
\<close>

theorem chunk_truncation_strict:
  assumes "n < int (length s)" and "1 \<le> n" and "k < length (chunks s n overlap)"
  shows "let w = py_slice s (chunk_offsets s n overlap ! k) (chunk_offsets s n overlap ! k + n);
             c = chunks s n overlap ! k
         in if (\<exists>p<length w. w ! p = CHR 0x0A \<and> real_of_int n * 0.6 < real p)
            then (\<exists>p<length w. w ! p = CHR 0x0A \<and>
                    (\<forall>q<length w. p < q \<longrightarrow> w ! q \<noteq> CHR 0x0A) \<and> c = take p w)
            else c = w"
proof -
  define i where "i = chunk_offsets s n overlap ! k"
  define w where "w = py_slice s i (i + n)"
  define j where "j = rfind w (CHR 0x0A)"
  have long: "\<not> int (length s) \<le> n" using assms by simp
  have k: "k < length (chunk_offsets s n overlap)"
    using assms long by (simp add: chunks_long)
  have c: "chunks s n overlap ! k = chunk_seg s n i"
    using k long by (simp add: chunks_long i_def)
  have seg: "chunk_seg s n i = (if real_of_int n * 0.6 < real_of_int j then py_slice w 0 j else w)"
    by (simp add: chunk_seg_def Let_def w_def j_def)
  have test: "(real_of_int n * 0.6 < real_of_int j) =
         (\<exists>p<length w. w ! p = CHR 0x0A \<and> real_of_int n * 0.6 < real p)"
    unfolding j_def using assms(2) by (rule rfind_past_sixty)
  show ?thesis
  proof (cases "real_of_int n * 0.6 < real_of_int j")
    case True
    then have "3 * n < 5 * j" by (simp only: past_sixty_iff)
    with assms have pos: "0 \<le> j" by linarith
    have "nat j < length w"
      using rfind_bounds[of w "CHR 0x0A"] pos by (simp add: j_def)
    moreover have "w ! nat j = CHR 0x0A"
      using pos rfind_nth[of w "CHR 0x0A"] by (simp add: j_def)
    moreover have "\<forall>q<length w. nat j < q \<longrightarrow> w ! q \<noteq> CHR 0x0A"
      using rfind_last[of w "CHR 0x0A"] pos by (simp add: j_def)
    moreover have "chunks s n overlap ! k = take (nat j) w"
      using True pos by (simp add: c seg prefix_slice)
    ultimately have concl: "\<exists>p<length w. w ! p = CHR 0x0A \<and>
                    (\<forall>q<length w. p < q \<longrightarrow> w ! q \<noteq> CHR 0x0A) \<and>
                    chunks s n overlap ! k = take p w"
      by blast
    have ex: "\<exists>p<length w. w ! p = CHR 0x0A \<and> real_of_int n * 0.6 < real p"
      using True test by blast
    show ?thesis
      unfolding Let_def i_def[symmetric] w_def[symmetric]
      by (simp only: ex if_True) (rule concl)
  next
    case False
    then have concl: "chunks s n overlap ! k = w" by (simp add: c seg)
    have ne: "\<not> (\<exists>p<length w. w ! p = CHR 0x0A \<and> real_of_int n * 0.6 < real p)"
      using False test by blast
    show ?thesis
      unfolding Let_def i_def[symmetric] w_def[symmetric]
      by (simp only: ne if_False) (rule concl)
  qed
qed

lemma chunks_example_past:
  "chunks ''aaaaaaa\<newline>aaa'' 10 0 = [''aaaaaaa'', ''\<newline>aaa'']"
  by (simp add: chunks_def chunks_loop.simps chunk_seg_def py_slice_def slice_index_def Let_def)

theorem chunk_truncation_strict_witness:
  "10 < int (length ''aaaaaaa\<newline>aaa'') \<and> (1::int) \<le> 10 \<and>
   0 < length (chunks ''aaaaaaa\<newline>aaa'' 10 0) \<and>
   (let w = py_slice ''aaaaaaa\<newline>aaa'' (chunk_offsets ''aaaaaaa\<newline>aaa'' 10 0 ! 0)
              (chunk_offsets ''aaaaaaa\<newline>aaa'' 10 0 ! 0 + 10);
        c = chunks ''aaaaaaa\<newline>aaa'' 10 0 ! 0
    in if (\<exists>p<length w. w ! p = CHR 0x0A \<and> real_of_int 10 * 0.6 < real p)
       then (\<exists>p<length w. w ! p = CHR 0x0A \<and>
               (\<forall>q<length w. p < q \<longrightarrow> w ! q \<noteq> CHR 0x0A) \<and> c = take p w)
       else c = w) \<and>
   py_slice ''aaaaaaa\<newline>aaa'' 0 10 ! 7 = CHR 0x0A \<and>
   chunks ''aaaaaaa\<newline>aaa'' 10 0 = [''aaaaaaa'', ''\<newline>aaa'']"
proof -
  have h1: "10 < int (length ''aaaaaaa\<newline>aaa'')" and h2: "(1::int) \<le> 10"
    by simp_all
  have h3: "0 < length (chunks ''aaaaaaa\<newline>aaa'' 10 0)"
    by (simp add: chunks_example_past)
  have w7: "py_slice ''aaaaaaa\<newline>aaa'' 0 10 ! 7 = CHR 0x0A"
    by (simp add: py_slice_def slice_index_def)
  note main = chunk_truncation_strict[OF h1 h2 h3]
  show ?thesis
    by (intro conjI h1 h2 h3 main w7 chunks_example_past)
qed

text \<open>
  The claim as the specification words it fails: with \<open>n = 10\<close> the window of the
  first iteration has its only line-break at index 6, which is \<open>0.6 * n\<close>, and the
  chunk yielded is the whole window, not the window cut at the line-break.
\<close>

theorem chunk_truncation_at_sixty_counterexample:
  "py_slice ''aaaaaa\<newline>aaaa'' 0 (0 + 10) = ''aaaaaa\<newline>aaa'' \<and>
   rfind ''aaaaaa\<newline>aaa'' (CHR 0x0A) = 6 \<and>
   real_of_int 10 * 0.6 = real_of_int 6 \<and>
   chunks ''aaaaaa\<newline>aaaa'' 10 0 = [''aaaaaa\<newline>aaa'', ''a''] \<and>
   chunks ''aaaaaa\<newline>aaaa'' 10 0 ! 0 \<noteq> take 6 ''aaaaaa\<newline>aaa''"
  by (simp add: chunks_def chunks_loop.simps chunk_seg_def py_slice_def slice_index_def Let_def)

text \<open>
  C8. The fragments kept are exactly those with at least three whitespace-separated
  words, in their order: a fragment with fewer than three words is dropped (so one of
  exactly two words is), a fragment with three or more is kept (so one of exactly three
  is), and the text of \<open>fetch_clean\<close> is built from the fragments kept.
\<close>

theorem minimum_word_filter:
  "collect_parts txts = filter (\<lambda>t. 3 \<le> length (py_split t)) txts \<and>
   (length (py_split t) < 3 \<longrightarrow> t \<notin> set (collect_parts txts)) \<and>
   (t \<in> set txts \<and> 3 \<le> length (py_split t) \<longrightarrow> t \<in> set (collect_parts txts)) \<and>
   (fetch_clean w url = Inr (title, x) \<longrightarrow>
      (\<exists>soup. http_get w url = Inr soup \<and>
         x = py_strip (sub_whitespace (py_join [CHR 0x0A] (collect_parts (fragments soup))))))"
proof -
  have "fetch_clean w url = Inr (title, x) \<longrightarrow>
      (\<exists>soup. http_get w url = Inr soup \<and>
         x = py_strip (sub_whitespace (py_join [CHR 0x0A] (collect_parts (fragments soup)))))"
    using fetch_clean_text[of w url title x] by (auto simp: extracted_def)
  then show ?thesis by (simp add: collect_parts_filter)
qed

theorem minimum_word_filter_witness:
  "py_split ''Home page'' = [''Home'', ''page''] \<and>
   py_split ''three short words'' = [''three'', ''short'', ''words''] \<and>
   collect_parts [''Menu'', ''Home page'', ''three short words'', '''']
     = [''three short words''] \<and>
   ''Home page'' \<notin> set (collect_parts [''Menu'', ''Home page'', ''three short words'', '''']) \<and>
   fetch_clean (example_world []) ''u'' = Inr (''Example'', ''three short words'')"
proof -
  have a: "py_split ''Home page'' = [''Home'', ''page'']"
    and b: "py_split ''three short words'' = [''three'', ''short'', ''words'']"
    by (simp_all add: py_split_def is_space_def)
  have c: "collect_parts [''Menu'', ''Home page'', ''three short words'', '''']
     = [''three short words'']"
    by (simp add: collect_parts_def py_split_def is_space_def)
  have d: "fetch_clean (example_world []) ''u'' = Inr (''Example'', ''three short words'')"
    by (simp add: fetch_clean_def example_world_def example_page_def collect_parts_def
        py_split_def py_strip_def sub_whitespace_def is_space_def Let_def)
  have e: "''Home page'' \<notin> set (collect_parts [''Menu'', ''Home page'', ''three short words'', ''''])"
    using minimum_word_filter[of "[''Menu'', ''Home page'', ''three short words'', '''']"
        "''Home page''" "example_world []" "''u''" "''Example''" "''three short words''"] a
    by simp
  show ?thesis by (intro conjI a b c d e)
qed

text \<open>
  C9. For a page that was fetched, \<open>fetch_clean\<close> ends with \<^verbatim>\<open>SystemExit\<close> and the
  message of its own exactly if the extracted text is empty, which is the case exactly
  if no fragment has three words; otherwise it returns the extracted text. Whatever the
  page, a text that \<open>fetch_clean\<close> returns is not empty.
\<close>

theorem fatal_on_empty_extraction:
  assumes "http_get w url = Inr soup"
  shows "(extracted soup = [] \<longrightarrow>
            fetch_clean w url = Inl (SystemExit ''Could not extract readable text from the page.'')) \<and>
         (extracted soup \<noteq> [] \<longrightarrow> (\<exists>title. fetch_clean w url = Inr (title, extracted soup))) \<and>
         (extracted soup = [] \<longleftrightarrow> collect_parts (fragments soup) = []) \<and>
         (\<forall>w' url' title x. fetch_clean w' url' = Inr (title, x) \<longrightarrow> x \<noteq> []) \<and>
         ''Could not extract readable text from the page.'' \<noteq> ''set GEMINI_API_KEY in .env''"
proof -
  have "\<forall>w' url' title x. fetch_clean w' url' = Inr (title, x) \<longrightarrow> x \<noteq> []"
    using fetch_clean_text by blast
  moreover have "extracted soup = [] \<longleftrightarrow> collect_parts (fragments soup) = []"
    by (rule extracted_empty_iff)
  ultimately show ?thesis
    using fetch_clean_fetched[OF assms] by simp
qed

theorem fatal_on_empty_extraction_witness:
  "http_get (example_world []\<lparr>http_get := \<lambda>u. Inr \<lparr>title_string = None, fragments = [''Menu'', ''Home page'']\<rparr>\<rparr>) ''u''
     = Inr \<lparr>title_string = None, fragments = [''Menu'', ''Home page'']\<rparr> \<and>
   extracted \<lparr>title_string = None, fragments = [''Menu'', ''Home page'']\<rparr> = [] \<and>
   fetch_clean (example_world []\<lparr>http_get := \<lambda>u. Inr \<lparr>title_string = None, fragments = [''Menu'', ''Home page'']\<rparr>\<rparr>) ''u''
     = Inl (SystemExit ''Could not extract readable text from the page.'')"
proof -
  have h: "http_get (example_world []\<lparr>http_get := \<lambda>u. Inr \<lparr>title_string = None, fragments = [''Menu'', ''Home page'']\<rparr>\<rparr>) ''u''
     = Inr \<lparr>title_string = None, fragments = [''Menu'', ''Home page'']\<rparr>"
    by simp
  have e: "extracted \<lparr>title_string = None, fragments = [''Menu'', ''Home page'']\<rparr> = []"
    by (simp add: extracted_def collect_parts_def py_split_def py_strip_def
        sub_whitespace_def is_space_def)
  from fatal_on_empty_extraction[OF h] e
  have "fetch_clean (example_world []\<lparr>http_get := \<lambda>u. Inr \<lparr>title_string = None, fragments = [''Menu'', ''Home page'']\<rparr>\<rparr>) ''u''
     = Inl (SystemExit ''Could not extract readable text from the page.'')"
    by blast
  with h e show ?thesis by blast
qed

subsection \<open>Chunks of a text without line-breaks\<close>

lemma py_slice_subset: "0 \<le> i \<Longrightarrow> 0 \<le> n \<Longrightarrow> set (py_slice s i (i + n)) \<subseteq> set s"
  by (auto simp: window_eq dest: in_set_takeD in_set_dropD)

lemma py_slice_length:
  "0 \<le> i \<Longrightarrow> 0 \<le> n \<Longrightarrow> length (py_slice s i (i + n)) = min (nat n) (length s - nat i)"
  by (simp add: window_eq min.commute)

lemma chunk_seg_no_newline:
  assumes "CHR 0x0A \<notin> set s" and "0 \<le> i" and "1 \<le> n"
  shows "chunk_seg s n i = py_slice s i (i + n)"
proof -
  have "CHR 0x0A \<notin> set (py_slice s i (i + n))"
    using py_slice_subset[of i n s] assms by auto
  then have "rfind (py_slice s i (i + n)) (CHR 0x0A) = - 1"
    by (rule rfind_absent)
  moreover have "\<not> 3 * n < 5 * (- 1)" using assms by simp
  ultimately show ?thesis
    by (simp add: chunk_seg_def Let_def past_sixty_iff)
qed

lemma chunks_loop_no_newline:
  assumes "CHR 0x0A \<notin> set s" and "0 \<le> i" and "1 \<le> n" and "i < int (length s)"
  shows "chunks_loop s n overlap i =
           py_slice s i (i + n) #
           chunks_loop s n overlap (i + max 1 (int (min (nat n) (length s - nat i)) - overlap))"
  using assms
  by (subst chunks_loop.simps) (simp add: chunk_seg_no_newline py_slice_length Let_def)

lemma loop_offsets_no_newline:
  assumes "CHR 0x0A \<notin> set s" and "0 \<le> i" and "1 \<le> n" and "i < int (length s)"
  shows "loop_offsets s n overlap i =
           i # loop_offsets s n overlap (i + max 1 (int (min (nat n) (length s - nat i)) - overlap))"
  using assms
  by (subst loop_offsets.simps) (simp add: chunk_seg_no_newline py_slice_length)

subsection \<open>The example pages\<close>

lemma long_text_length: "length long_text = 12001"
  by (simp add: long_text_def)

lemma long_text_no_newline: "CHR 0x0A \<notin> set long_text"
  by (simp add: long_text_def)

lemma joined_text_length: "length joined_text = 12007"
  by (simp add: joined_text_def long_text_length)

lemma joined_text_no_newline: "CHR 0x0A \<notin> set joined_text"
  by (simp add: joined_text_def long_text_no_newline)

lemma sub_from_words_append:
  "\<forall>c\<in>set u. \<not> is_space c \<Longrightarrow> sub_from False (u @ v) = u @ sub_from False v"
  by (induction u) auto

lemma joined_extracted:
  assumes ns: "\<forall>c\<in>set r. \<not> is_space c"
  shows "extracted \<lparr>title_string = None, fragments = [''a a a'' @ r, ''b b b'']\<rparr>
           = (''a a a'' @ r) @ '' b b b''"
proof -
  have "split_from [] (''a a a'' @ r) = [''a'', ''a''] @ split_from ''a'' r"
    by (simp add: is_space_def)
  moreover have "split_from ''a'' r = [''a'' @ r]"
    using split_from_words[OF ns, of "''a''"] by simp
  ultimately have s1: "py_split (''a a a'' @ r) = [''a'', ''a'', ''a'' @ r]"
    by (simp only: py_split_def append.simps)
  have s2: "py_split ''b b b'' = [''b'', ''b'', ''b'']"
    by (simp add: py_split_def is_space_def)
  from s1 s2 have parts: "collect_parts [''a a a'' @ r, ''b b b''] = [''a a a'' @ r, ''b b b'']"
    by (simp add: collect_parts_def)
  have j: "py_join [CHR 0x0A] [''a a a'' @ r, ''b b b''] = (''a a a'' @ r) @ [CHR 0x0A] @ ''b b b''"
    by (simp only: py_join.simps)
  have "sub_from False (''a a a'' @ r @ [CHR 0x0A] @ ''b b b'')
          = ''a a a'' @ sub_from False (r @ [CHR 0x0A] @ ''b b b'')"
    by (simp add: is_space_def)
  moreover have "sub_from False (r @ [CHR 0x0A] @ ''b b b'') = r @ sub_from False ([CHR 0x0A] @ ''b b b'')"
    by (rule sub_from_words_append[OF ns])
  moreover have "sub_from False ([CHR 0x0A] @ ''b b b'') = '' b b b''"
    by (simp add: is_space_def)
  ultimately have sub: "sub_whitespace ((''a a a'' @ r) @ [CHR 0x0A] @ ''b b b'')
                          = (''a a a'' @ r) @ '' b b b''"
    by (simp only: sub_whitespace_def append_assoc)
  have h: "\<not> is_space (hd ((''a a a'' @ r) @ '' b b b''))" by (simp add: is_space_def)
  have l: "\<not> is_space (last ((''a a a'' @ r) @ '' b b b''))" by (simp add: is_space_def)
  have nonempty: "(''a a a'' @ r) @ '' b b b'' \<noteq> []" by simp
  have strip: "py_strip ((''a a a'' @ r) @ '' b b b'') = (''a a a'' @ r) @ '' b b b''"
    by (rule py_strip_trimmed[OF nonempty h l])
  have "extracted \<lparr>title_string = None, fragments = [''a a a'' @ r, ''b b b'']\<rparr>
        = py_strip (sub_whitespace (py_join [CHR 0x0A] (collect_parts [''a a a'' @ r, ''b b b''])))"
    by (simp add: extracted_def)
  also have "\<dots> = py_strip (sub_whitespace ((''a a a'' @ r) @ [CHR 0x0A] @ ''b b b''))"
    by (simp only: parts j)
  also have "\<dots> = (''a a a'' @ r) @ '' b b b''" by (simp only: sub strip)
  finally show ?thesis .
qed

lemma joined_fetch: "fetch_clean joined_world ''u'' = Inr ([], joined_text)"
proof -
  have "extracted \<lparr>title_string = None, fragments = [long_text, ''b b b'']\<rparr> = joined_text"
    unfolding long_text_def joined_text_def
    by (rule joined_extracted) (simp add: is_space_def)
  moreover have "joined_text \<noteq> []" using joined_text_length by auto
  moreover have "http_get joined_world ''u''
                   = Inr \<lparr>title_string = None, fragments = [long_text, ''b b b'']\<rparr>"
    by (simp add: joined_world_def)
  ultimately show ?thesis
    using fetch_clean_fetched[of joined_world "''u''"
            "\<lparr>title_string = None, fragments = [long_text, ''b b b'']\<rparr>"]
    by simp
qed

lemma joined_chunks:
  "chunks joined_text 12000 400 =
     py_slice joined_text 0 (0 + 12000) # py_slice joined_text 11600 (11600 + 12000) #
     chunks_loop joined_text 12000 400 11607"
proof -
  note step = chunks_loop_no_newline[OF joined_text_no_newline, of _ 12000 400]
  have a: "chunks_loop joined_text 12000 400 0 =
             py_slice joined_text 0 (0 + 12000) # chunks_loop joined_text 12000 400 11600"
    by (subst step) (simp_all add: joined_text_length)
  have b: "chunks_loop joined_text 12000 400 11600 =
             py_slice joined_text 11600 (11600 + 12000) # chunks_loop joined_text 12000 400 11607"
    by (subst step) (simp_all add: joined_text_length)
  show ?thesis
    by (simp only: chunks_def a b) (simp add: joined_text_length)
qed

lemma joined_offsets:
  "chunk_offsets joined_text 12000 400 = 0 # 11600 # loop_offsets joined_text 12000 400 11607"
proof -
  note step = loop_offsets_no_newline[OF joined_text_no_newline, of _ 12000 400]
  have a: "loop_offsets joined_text 12000 400 0 = 0 # loop_offsets joined_text 12000 400 11600"
    by (subst step) (simp_all add: joined_text_length)
  have b: "loop_offsets joined_text 12000 400 11600
             = 11600 # loop_offsets joined_text 12000 400 11607"
    by (subst step) (simp_all add: joined_text_length)
  show ?thesis
    by (simp only: chunk_offsets_def a b) (simp add: joined_text_length)
qed

text \<open>
  C10, as the code has it. A text that \<open>fetch_clean\<close> returns has no line-break, so in
  \<open>summarize_url\<close> no chunk is cut at a line-break: every chunk is the whole window
  \<^verbatim>\<open>text[i:i+12000]\<close> at its offset \<open>i\<close>, of length 12000 or, when the text ends
  before, of what is left of the text.
\<close>

theorem extracted_text_chunks:
  assumes "fetch_clean w url = Inr (title, x)" and "k < length (chunks x 12000 400)"
  shows "CHR 0x0A \<notin> set x \<and>
         chunks x 12000 400 ! k =
           py_slice x (chunk_offsets x 12000 400 ! k) (chunk_offsets x 12000 400 ! k + 12000) \<and>
         length (chunks x 12000 400 ! k) =
           min 12000 (length x - nat (chunk_offsets x 12000 400 ! k))"
proof -
  from assms(1) obtain soup where "x = extracted soup"
    using fetch_clean_text by blast
  then have nn: "CHR 0x0A \<notin> set x" by (simp add: extracted_no_newline)
  show ?thesis
  proof (cases "int (length x) \<le> 12000")
    case True
    then have "py_slice x 0 (0 + 12000) = x"
      by (simp add: window_eq del: add_0)
    with True assms(2) nn show ?thesis
      by (simp add: chunks_def chunk_offsets_def)
  next
    case False
    define i where "i = chunk_offsets x 12000 400 ! k"
    have k: "k < length (chunk_offsets x 12000 400)"
      using assms(2) False by (simp add: chunks_long)
    then have "i \<in> set (loop_offsets x 12000 400 0)"
      using False by (simp add: i_def chunk_offsets_long)
    then have i: "0 \<le> i" using loop_offsets_range by blast
    have c: "chunks x 12000 400 ! k = chunk_seg x 12000 i"
      using k False by (simp add: chunks_long i_def)
    have "chunk_seg x 12000 i = py_slice x i (i + 12000)"
      using nn i by (simp add: chunk_seg_no_newline)
    with c nn i py_slice_length[of i 12000 x] show ?thesis
      by (simp add: i_def[symmetric])
  qed
qed

theorem extracted_text_chunks_witness:
  "fetch_clean joined_world ''u'' = Inr ([], joined_text) \<and>
   length joined_text = 12007 \<and>
   1 < length (chunks joined_text 12000 400) \<and>
   CHR 0x0A \<notin> set joined_text \<and>
   chunks joined_text 12000 400 ! 1 =
     py_slice joined_text (chunk_offsets joined_text 12000 400 ! 1)
       (chunk_offsets joined_text 12000 400 ! 1 + 12000) \<and>
   length (chunks joined_text 12000 400 ! 1) =
     min 12000 (length joined_text - nat (chunk_offsets joined_text 12000 400 ! 1)) \<and>
   chunk_offsets joined_text 12000 400 ! 1 = 11600 \<and>
   length (chunks joined_text 12000 400 ! 1) = 407"
proof -
  have h2: "1 < length (chunks joined_text 12000 400)"
    by (simp only: joined_chunks) simp
  note main = extracted_text_chunks[OF joined_fetch h2]
  have o: "chunk_offsets joined_text 12000 400 ! 1 = 11600"
    by (simp only: joined_offsets) simp
  from main have c1: "CHR 0x0A \<notin> set joined_text" by (rule conjunct1)
  from main have c2: "chunks joined_text 12000 400 ! 1 =
     py_slice joined_text (chunk_offsets joined_text 12000 400 ! 1)
       (chunk_offsets joined_text 12000 400 ! 1 + 12000)"
    by (rule conjunct2[THEN conjunct1])
  from main have c3: "length (chunks joined_text 12000 400 ! 1) =
     min 12000 (length joined_text - nat (chunk_offsets joined_text 12000 400 ! 1))"
    by (rule conjunct2[THEN conjunct2])
  have c4: "length (chunks joined_text 12000 400 ! 1) = 407"
    unfolding c3 o joined_text_length by simp
  show ?thesis
    by (intro conjI joined_fetch joined_text_length h2 c1 c2 c3 o c4)
qed

text \<open>
  The last sentence of the claim fails. On a text of 12001 characters the chunker
  yields a chunk of 12000 characters, then the 401 characters from offset 11600, then
  a chunk from offset 11601, and so on: the chunks after the first get shorter one
  character at a time, and the second chunk is neither the last nor of length 12000.
\<close>

lemma long_text_extracted:
  assumes ns: "\<forall>c\<in>set r. \<not> is_space c" and ne: "r \<noteq> []"
  shows "extracted \<lparr>title_string = None, fragments = [''a a a'' @ r]\<rparr> = ''a a a'' @ r"
proof -
  have "split_from [] (''a a a'' @ r) = [''a'', ''a''] @ split_from ''a'' r"
    by (simp add: is_space_def)
  moreover have "split_from ''a'' r = [''a'' @ r]"
    using split_from_words[OF ns, of "''a''"] by simp
  ultimately have "py_split (''a a a'' @ r) = [''a'', ''a'', ''a'' @ r]"
    by (simp only: py_split_def append.simps)
  then have parts: "collect_parts [''a a a'' @ r] = [''a a a'' @ r]"
    by (simp add: collect_parts_def)
  have "sub_from False (''a a a'' @ r) = ''a a a'' @ sub_from False r"
    by (simp add: is_space_def)
  then have sub: "sub_whitespace (''a a a'' @ r) = ''a a a'' @ r"
    using sub_from_words[OF ns, of False] by (simp only: sub_whitespace_def)
  have lr: "\<not> is_space (last r)" using ns last_in_set[OF ne] by blast
  have ll: "last (''a a a'' @ r) = last r" using ne by simp
  have l: "\<not> is_space (last (''a a a'' @ r))" unfolding ll by (rule lr)
  have h: "\<not> is_space (hd (''a a a'' @ r))" by (simp add: is_space_def)
  have nonempty: "''a a a'' @ r \<noteq> []" by simp
  have strip: "py_strip (''a a a'' @ r) = ''a a a'' @ r"
    by (rule py_strip_trimmed[OF nonempty h l])
  have "extracted \<lparr>title_string = None, fragments = [''a a a'' @ r]\<rparr>
        = py_strip (sub_whitespace (py_join [CHR 0x0A] (collect_parts [''a a a'' @ r])))"
    by (simp add: extracted_def)
  also have "\<dots> = py_strip (sub_whitespace (''a a a'' @ r))"
    by (simp only: parts py_join.simps)
  also have "\<dots> = ''a a a'' @ r" by (simp only: sub strip)
  finally show ?thesis .
qed

lemma long_world_fetch: "fetch_clean long_world ''u'' = Inr ('''', long_text)"
proof -
  have "extracted \<lparr>title_string = None, fragments = [long_text]\<rparr> = long_text"
    unfolding long_text_def by (rule long_text_extracted) (simp_all add: is_space_def)
  moreover have "long_text \<noteq> []" using long_text_length by auto
  moreover have "http_get long_world ''u'' = Inr \<lparr>title_string = None, fragments = [long_text]\<rparr>"
    by (simp add: long_world_def)
  ultimately show ?thesis
    using fetch_clean_fetched[of long_world "''u''" "\<lparr>title_string = None, fragments = [long_text]\<rparr>"]
    by simp
qed

lemma long_text_chunks:
  "chunks long_text 12000 400 =
     py_slice long_text 0 (0 + 12000) # py_slice long_text 11600 (11600 + 12000) #
     py_slice long_text 11601 (11601 + 12000) # chunks_loop long_text 12000 400 11602"
proof -
  note step = chunks_loop_no_newline[OF long_text_no_newline, of _ 12000 400]
  have a: "chunks_loop long_text 12000 400 0 =
             py_slice long_text 0 (0 + 12000) # chunks_loop long_text 12000 400 11600"
    by (subst step) (simp_all add: long_text_length)
  have b: "chunks_loop long_text 12000 400 11600 =
             py_slice long_text 11600 (11600 + 12000) # chunks_loop long_text 12000 400 11601"
    by (subst step) (simp_all add: long_text_length)
  have c: "chunks_loop long_text 12000 400 11601 =
             py_slice long_text 11601 (11601 + 12000) # chunks_loop long_text 12000 400 11602"
    by (subst step) (simp_all add: long_text_length)
  show ?thesis
    by (simp only: chunks_def a b c) (simp add: long_text_length)
qed

theorem tail_chunks_counterexample:
  "fetch_clean long_world ''u'' = Inr ('''', long_text) \<and>
   length long_text = 12001 \<and>
   length (chunks long_text 12000 400 ! 0) = 12000 \<and>
   length (chunks long_text 12000 400 ! 1) = 401 \<and>
   2 < length (chunks long_text 12000 400)"
proof -
  have l0: "length (py_slice long_text 0 (0 + 12000)) = 12000"
    by (subst py_slice_length) (simp_all add: long_text_length)
  have l1: "length (py_slice long_text 11600 (11600 + 12000)) = 401"
    by (subst py_slice_length) (simp_all add: long_text_length)
  show ?thesis
    by (simp only: long_text_chunks long_world_fetch long_text_length l0 l1
        nth_Cons_0 nth_Cons_Suc One_nat_def list.size) simp
qed

subsection \<open>The repair cascade of \<open>parse_json\<close>\<close>

lemmas json_eval =
  json_loads_def json_space_def is_digit_def unescape_def scan_digits_def scan_number_def
  starts_with_def

lemmas search_eval = fenced_at_def search_braces_def starts_with_def is_space_def

subsection \<open>What the two searches find\<close>

lemma lazy_close_sound:
  "lazy_close b = Some x \<Longrightarrow>
   x \<noteq> [] \<and> last x = CHR ''}'' \<and> take (length x) b = x \<and>
   starts_with ''```'' (dropWhile is_space (drop (length x) b))"
proof (induction b arbitrary: x)
  case Nil
  then show ?case by simp
next
  case (Cons c cs)
  show ?case
  proof (cases "c = CHR ''}'' \<and> starts_with ''```'' (dropWhile is_space cs)")
    case True
    with Cons.prems have "x = [c]" by simp
    with True show ?thesis by simp
  next
    case False
    with Cons.prems obtain y where y: "lazy_close cs = Some y" and x: "x = c # y"
      by auto
    from Cons.IH[OF y] x show ?thesis by simp
  qed
qed

lemma lazy_close_least:
  "y \<noteq> [] \<Longrightarrow> last y = CHR ''}'' \<Longrightarrow> take (length y) b = y \<Longrightarrow>
   starts_with ''```'' (dropWhile is_space (drop (length y) b)) \<Longrightarrow>
   \<exists>x. lazy_close b = Some x \<and> length x \<le> length y"
proof (induction b arbitrary: y)
  case Nil
  then show ?case by simp
next
  case (Cons c cs)
  from Cons.prems(1,3) obtain y' where y: "y = c # y'" by (cases y) auto
  show ?case
  proof (cases "c = CHR ''}'' \<and> starts_with ''```'' (dropWhile is_space cs)")
    case True
    then show ?thesis using y by simp
  next
    case False
    have ne: "y' \<noteq> []"
    proof
      assume "y' = []"
      with y Cons.prems(2,4) False show False by simp
    qed
    from Cons.prems y ne have "last y' = CHR ''}''" "take (length y') cs = y'"
      "starts_with ''```'' (dropWhile is_space (drop (length y') cs))"
      by simp_all
    from Cons.IH[OF ne this] obtain x where "lazy_close cs = Some x" "length x \<le> length y'"
      by blast
    with False y show ?thesis by simp
  qed
qed

lemma fenced_at_sound: "fenced_at t = Some g \<Longrightarrow> fenced_match t g"
proof -
  assume a: "fenced_at t = Some g"
  then have st: "starts_with ''```json'' t"
    by (simp add: fenced_at_def split: if_splits)
  from a st obtain body x where u: "dropWhile is_space (drop 7 t) = CHR ''{'' # body"
    and x: "lazy_close body = Some x" and g: "g = CHR ''{'' # x"
    by (auto simp: fenced_at_def split: list.splits if_splits)
  from lazy_close_sound[OF x] st u g show ?thesis
    by (auto simp add: fenced_match_def Let_def starts_with_def Suc_le_eq)
qed

lemma fenced_at_least:
  assumes "fenced_match t g'"
  shows "\<exists>g. fenced_at t = Some g \<and> length g \<le> length g'"
proof -
  define u where "u = dropWhile is_space (drop 7 t)"
  from assms have st: "starts_with ''```json'' t" and tk: "take (length g') u = g'"
    and len: "2 \<le> length g'" and hd: "hd g' = CHR ''{''" and la: "last g' = CHR ''}''"
    and cl: "starts_with ''```'' (dropWhile is_space (drop (length g') u))"
    by (simp_all add: fenced_match_def Let_def starts_with_def u_def)
  from len hd obtain y where g': "g' = CHR ''{'' # y" and ne: "y \<noteq> []"
    by (cases g') (auto simp: Suc_le_eq)
  from tk g' obtain body where u: "u = CHR ''{'' # body"
    by (cases u) auto
  from tk g' u have t2: "take (length y) body = y" by simp
  from la g' ne have l2: "last y = CHR ''}''" by simp
  from cl g' u have c2: "starts_with ''```'' (dropWhile is_space (drop (length y) body))" by simp
  from lazy_close_least[OF ne l2 t2 c2] obtain x where "lazy_close body = Some x"
    "length x \<le> length y" by blast
  with st u g' show ?thesis
    by (simp add: fenced_at_def u_def[symmetric])
qed

lemma fenced_at_Nil: "fenced_at [] = None"
  by (simp add: fenced_at_def starts_with_def)

lemma search_fenced_sound:
  "search_fenced s = Some g \<Longrightarrow>
   \<exists>i<length s. fenced_at (drop i s) = Some g \<and> (\<forall>j<i. fenced_at (drop j s) = None)"
proof (induction s)
  case Nil
  then show ?case by simp
next
  case (Cons c cs)
  show ?case
  proof (cases "fenced_at (c # cs)")
    case (Some g0)
    with Cons.prems have "g0 = g" by simp
    with Some have "fenced_at (drop 0 (c # cs)) = Some g" by simp
    then show ?thesis by (intro exI[of _ 0]) simp
  next
    case None
    with Cons.prems have "search_fenced cs = Some g" by simp
    from Cons.IH[OF this] obtain i where i: "i < length cs" "fenced_at (drop i cs) = Some g"
      "\<forall>j<i. fenced_at (drop j cs) = None" by blast
    have "\<forall>j<Suc i. fenced_at (drop j (c # cs)) = None"
    proof (intro allI impI)
      fix j assume "j < Suc i"
      then show "fenced_at (drop j (c # cs)) = None"
        using None i(3) by (cases j) simp_all
    qed
    with i show ?thesis by (intro exI[of _ "Suc i"]) simp
  qed
qed

lemma search_fenced_none: "search_fenced s = None \<Longrightarrow> fenced_at (drop j s) = None"
proof (induction s arbitrary: j)
  case Nil
  then show ?case by (simp add: fenced_at_Nil)
next
  case (Cons c cs)
  from Cons.prems have a: "fenced_at (c # cs) = None" and b: "search_fenced cs = None"
    by (simp_all split: option.splits)
  show ?case using a Cons.IH[OF b] by (cases j) simp_all
qed

lemma brace_behind:
  "CHR ''}'' \<in> set (dropWhile (\<lambda>c. c \<noteq> CHR ''{'') (p @ CHR ''{'' # m @ CHR ''}'' # r))"
  by (induction p) auto

lemma case_list_whole:
  "(case xs of [] \<Rightarrow> a | y # ys \<Rightarrow> f (y # ys)) = (if xs = [] then a else f xs)"
  by (cases xs) simp_all

lemma search_braces_eq:
  "search_braces s =
     (if dropWhile (\<lambda>c. c \<noteq> CHR ''{'') s = [] then None
      else if 0 \<le> rfind (dropWhile (\<lambda>c. c \<noteq> CHR ''{'') s) (CHR ''}'')
        then Some (take (nat (rfind (dropWhile (\<lambda>c. c \<noteq> CHR ''{'') s) (CHR ''}'')) + 1)
                     (dropWhile (\<lambda>c. c \<noteq> CHR ''{'') s))
        else None)"
  unfolding search_braces_def Let_def
  by (rule case_list_whole
        [where f = "\<lambda>t. if 0 \<le> rfind t (CHR ''}'')
                       then Some (take (nat (rfind t (CHR ''}'')) + 1) t) else None"])

lemma search_braces_none:
  "search_braces s = None \<Longrightarrow> s \<noteq> p @ CHR ''{'' # m @ CHR ''}'' # r"
proof
  assume n: "search_braces s = None" and s: "s = p @ CHR ''{'' # m @ CHR ''}'' # r"
  define t where "t = dropWhile (\<lambda>c. c \<noteq> CHR ''{'') s"
  have in_t: "CHR ''}'' \<in> set t" unfolding t_def s by (rule brace_behind)
  then have "0 \<le> rfind t (CHR ''}'')" by (rule rfind_present)
  moreover from in_t have "t \<noteq> []" by auto
  ultimately have "search_braces s \<noteq> None"
    using search_braces_eq[of s, folded t_def] by simp
  with n show False by simp
qed

lemma search_braces_some:
  assumes "search_braces s = Some g"
  shows "\<exists>p r. s = p @ g @ r \<and> CHR ''{'' \<notin> set p \<and> hd g = CHR ''{'' \<and>
               last g = CHR ''}'' \<and> 2 \<le> length g \<and> CHR ''}'' \<notin> set r"
proof -
  define p where "p = takeWhile (\<lambda>c. c \<noteq> CHR ''{'') s"
  define t where "t = dropWhile (\<lambda>c. c \<noteq> CHR ''{'') s"
  define j where "j = rfind t (CHR ''}'')"
  have s: "s = p @ t" by (simp add: p_def t_def)
  have p: "CHR ''{'' \<notin> set p" unfolding p_def by (auto dest: set_takeWhileD)
  have sb: "search_braces s =
              (if t = [] then None else if 0 \<le> j then Some (take (nat j + 1) t) else None)"
    unfolding t_def j_def by (rule search_braces_eq)
  from assms sb have ne: "t \<noteq> []" by (auto split: if_splits)
  from assms sb ne have j0: "0 \<le> j" and g: "g = take (nat j + 1) t"
    by (auto split: if_splits)
  have jl: "j < int (length t)" using rfind_bounds[of t "CHR ''}''"] by (simp add: j_def)
  have hd_t: "hd t = CHR ''{''" using ne hd_dropWhile[of "\<lambda>c. c \<noteq> CHR ''{''" s]
    by (simp add: t_def)
  have tj: "t ! nat j = CHR ''}''" using rfind_nth[of t "CHR ''}''"] j0 by (simp add: j_def)
  have lg: "length g = nat j + 1" using jl j0 g by simp
  have hd_g: "hd g = CHR ''{''" using hd_t ne g by (cases t) simp_all
  have gne: "g \<noteq> []" using lg by auto
  have "last g = g ! nat j" using lg last_conv_nth[OF gne] by simp
  also have "\<dots> = t ! nat j" using g by simp
  finally have last_g: "last g = CHR ''}''" using tj by simp
  have "nat j \<noteq> 0"
  proof
    assume "nat j = 0"
    with tj hd_t ne show False by (simp add: hd_conv_nth)
  qed
  then have len: "2 \<le> length g" using lg by simp
  have r: "CHR ''}'' \<notin> set (drop (nat j + 1) t)"
  proof
    assume "CHR ''}'' \<in> set (drop (nat j + 1) t)"
    then obtain k where k: "k < length t - (nat j + 1)" "drop (nat j + 1) t ! k = CHR ''}''"
      by (auto simp: in_set_conv_nth)
    then have "t ! (nat j + 1 + k) = CHR ''}''" by simp
    moreover have "t ! (nat j + 1 + k) \<noteq> CHR ''}''"
      by (rule rfind_last) (use k j0 in \<open>simp_all add: j_def[symmetric]\<close>)
    ultimately show False by simp
  qed
  have "s = p @ g @ drop (nat j + 1) t" using s g by simp
  with p hd_g last_g len r show ?thesis by blast
qed

lemma search_fenced_some:
  assumes "search_fenced s = Some g"
  shows "\<exists>i<length s. fenced_match (drop i s) g \<and>
           (\<forall>g'. fenced_match (drop i s) g' \<longrightarrow> length g \<le> length g') \<and>
           (\<forall>j<i. \<forall>g'. \<not> fenced_match (drop j s) g')"
proof -
  from search_fenced_sound[OF assms] obtain i where i: "i < length s"
    and at: "fenced_at (drop i s) = Some g" and before: "\<forall>j<i. fenced_at (drop j s) = None"
    by blast
  have m: "fenced_match (drop i s) g" using at by (rule fenced_at_sound)
  have least: "\<forall>g'. fenced_match (drop i s) g' \<longrightarrow> length g \<le> length g'"
  proof (intro allI impI)
    fix g' assume "fenced_match (drop i s) g'"
    from fenced_at_least[OF this] at show "length g \<le> length g'" by auto
  qed
  have first: "\<forall>j<i. \<forall>g'. \<not> fenced_match (drop j s) g'"
  proof (intro allI impI notI)
    fix j g' assume "j < i" and "fenced_match (drop j s) g'"
    with before fenced_at_least[of "drop j s" g'] show False by auto
  qed
  from i m least first show ?thesis by blast
qed

lemma search_fenced_nowhere:
  assumes "search_fenced s = None"
  shows "\<not> fenced_match (drop j s) g'"
proof
  assume "fenced_match (drop j s) g'"
  from fenced_at_least[OF this] search_fenced_none[OF assms, of j] show False by auto
qed

text \<open>
  C4, as the code has it. \<open>parse_json\<close> first decodes the whole payload. When that
  fails it tries ONE span. If the fenced pattern matches somewhere in the payload, the
  span is the group of its leftmost match, which is the shortest group that matches at
  that position: a span that starts with \<^verbatim>\<open>{\<close> and ends with \<^verbatim>\<open>}\<close>, between the opening
  fence with the whitespace after it and the whitespace before the closing fence.
  Only if the pattern matches nowhere, the span is the one from the first \<^verbatim>\<open>{\<close> of the
  payload to its last \<^verbatim>\<open>}\<close>, if there is a \<^verbatim>\<open>}\<close> after a \<^verbatim>\<open>{\<close>. The result is the decoded
  span, and the fallback when there is no span or the span does not decode: the brace
  span is never tried once the fenced pattern has matched.
\<close>

theorem parse_json_cascade:
  "parse_json loads s =
     (case loads s of
        Some v \<Rightarrow> v
      | None \<Rightarrow>
          (case search_fenced s of
             Some g \<Rightarrow>
               (case loads g of
                  Some v \<Rightarrow> v
                | None \<Rightarrow> JObject [(''abstract'', JString (py_strip s)), (''bullets'', JArray [])])
           | None \<Rightarrow>
               (case search_braces s of
                  Some g \<Rightarrow>
                    (case loads g of
                       Some v \<Rightarrow> v
                     | None \<Rightarrow>
                         JObject [(''abstract'', JString (py_strip s)), (''bullets'', JArray [])])
                | None \<Rightarrow>
                    JObject [(''abstract'', JString (py_strip s)), (''bullets'', JArray [])]))) \<and>
   (\<forall>g. search_fenced s = Some g \<longrightarrow>
        (\<exists>i<length s. fenced_match (drop i s) g \<and>
           (\<forall>g'. fenced_match (drop i s) g' \<longrightarrow> length g \<le> length g') \<and>
           (\<forall>j<i. \<forall>g'. \<not> fenced_match (drop j s) g'))) \<and>
   (search_fenced s = None \<longrightarrow> (\<forall>j g'. \<not> fenced_match (drop j s) g')) \<and>
   (\<forall>g. search_braces s = Some g \<longrightarrow>
        (\<exists>p r. s = p @ g @ r \<and> CHR ''{'' \<notin> set p \<and> hd g = CHR ''{'' \<and>
               last g = CHR ''}'' \<and> 2 \<le> length g \<and> CHR ''}'' \<notin> set r)) \<and>
   (search_braces s = None \<longrightarrow> (\<forall>p m r. s \<noteq> p @ CHR ''{'' # m @ CHR ''}'' # r))"
proof (intro conjI)
  show "parse_json loads s =
     (case loads s of
        Some v \<Rightarrow> v
      | None \<Rightarrow>
          (case search_fenced s of
             Some g \<Rightarrow>
               (case loads g of
                  Some v \<Rightarrow> v
                | None \<Rightarrow> JObject [(''abstract'', JString (py_strip s)), (''bullets'', JArray [])])
           | None \<Rightarrow>
               (case search_braces s of
                  Some g \<Rightarrow>
                    (case loads g of
                       Some v \<Rightarrow> v
                     | None \<Rightarrow>
                         JObject [(''abstract'', JString (py_strip s)), (''bullets'', JArray [])])
                | None \<Rightarrow>
                    JObject [(''abstract'', JString (py_strip s)), (''bullets'', JArray [])])))"
    by (simp add: parse_json_def split: option.splits)
next
  show "\<forall>g. search_fenced s = Some g \<longrightarrow>
        (\<exists>i<length s. fenced_match (drop i s) g \<and>
           (\<forall>g'. fenced_match (drop i s) g' \<longrightarrow> length g \<le> length g') \<and>
           (\<forall>j<i. \<forall>g'. \<not> fenced_match (drop j s) g'))"
    by (intro allI impI) (rule search_fenced_some)
next
  show "search_fenced s = None \<longrightarrow> (\<forall>j g'. \<not> fenced_match (drop j s) g')"
    by (intro allI impI) (rule search_fenced_nowhere)
next
  show "\<forall>g. search_braces s = Some g \<longrightarrow>
        (\<exists>p r. s = p @ g @ r \<and> CHR ''{'' \<notin> set p \<and> hd g = CHR ''{'' \<and>
               last g = CHR ''}'' \<and> 2 \<le> length g \<and> CHR ''}'' \<notin> set r)"
    by (intro allI impI) (rule search_braces_some)
next
  show "search_braces s = None \<longrightarrow> (\<forall>p m r. s \<noteq> p @ CHR ''{'' # m @ CHR ''}'' # r)"
    by (intro allI impI) (rule search_braces_none)
qed

text \<open>The example of the specification: prose around a fenced block.\<close>

lemma prose_not_json:
  "json_loads ''Some prose ```json {\"abstract\":\"x\",\"bullets\":[\"a\"]} ``` trailing'' = None"
  by (simp add: json_eval)

lemma prose_fenced:
  "search_fenced ''Some prose ```json {\"abstract\":\"x\",\"bullets\":[\"a\"]} ``` trailing''
     = Some ''{\"abstract\":\"x\",\"bullets\":[\"a\"]}''"
  by (simp add: search_eval)

lemma prose_block_decodes:
  "json_loads ''{\"abstract\":\"x\",\"bullets\":[\"a\"]}''
     = Some (JObject [(''abstract'', JString ''x''), (''bullets'', JArray [JString ''a''])])"
  by (simp add: json_eval)

text \<open>
  A payload with a fenced block that the pattern does not match, its content being an
  array: the span tried is the one between the braces.
\<close>

lemma array_not_json: "json_loads ''x ```json [1,] ``` {\"a\":1}'' = None"
  by (simp add: json_eval)

lemma array_no_fence: "search_fenced ''x ```json [1,] ``` {\"a\":1}'' = None"
  by (simp add: search_eval)

lemma array_braces: "search_braces ''x ```json [1,] ``` {\"a\":1}'' = Some ''{\"a\":1}''"
  by (simp add: search_eval)

lemma array_span_decodes: "json_loads ''{\"a\":1}'' = Some (JObject [(''a'', JInt 1)])"
  by (simp add: json_eval)

theorem parse_json_cascade_witness:
  "json_loads ''Some prose ```json {\"abstract\":\"x\",\"bullets\":[\"a\"]} ``` trailing'' = None \<and>
   search_fenced ''Some prose ```json {\"abstract\":\"x\",\"bullets\":[\"a\"]} ``` trailing''
     = Some ''{\"abstract\":\"x\",\"bullets\":[\"a\"]}'' \<and>
   parse_json json_loads
       ''Some prose ```json {\"abstract\":\"x\",\"bullets\":[\"a\"]} ``` trailing''
     = JObject [(''abstract'', JString ''x''), (''bullets'', JArray [JString ''a''])] \<and>
   (\<exists>i<length ''Some prose ```json {\"abstract\":\"x\",\"bullets\":[\"a\"]} ``` trailing''.
      fenced_match
        (drop i ''Some prose ```json {\"abstract\":\"x\",\"bullets\":[\"a\"]} ``` trailing'')
        ''{\"abstract\":\"x\",\"bullets\":[\"a\"]}'' \<and>
      (\<forall>g'. fenced_match
              (drop i ''Some prose ```json {\"abstract\":\"x\",\"bullets\":[\"a\"]} ``` trailing'') g'
            \<longrightarrow> length ''{\"abstract\":\"x\",\"bullets\":[\"a\"]}'' \<le> length g') \<and>
      (\<forall>j<i. \<forall>g'. \<not> fenced_match
              (drop j ''Some prose ```json {\"abstract\":\"x\",\"bullets\":[\"a\"]} ``` trailing'') g')) \<and>
   json_loads ''x ```json [1,] ``` {\"a\":1}'' = None \<and>
   search_fenced ''x ```json [1,] ``` {\"a\":1}'' = None \<and>
   search_braces ''x ```json [1,] ``` {\"a\":1}'' = Some ''{\"a\":1}'' \<and>
   parse_json json_loads ''x ```json [1,] ``` {\"a\":1}'' = JObject [(''a'', JInt 1)] \<and>
   (\<forall>j g'. \<not> fenced_match (drop j ''x ```json [1,] ``` {\"a\":1}'') g') \<and>
   (\<exists>p r. ''x ```json [1,] ``` {\"a\":1}'' = p @ ''{\"a\":1}'' @ r \<and> CHR ''{'' \<notin> set p \<and>
          hd ''{\"a\":1}'' = CHR ''{'' \<and> last ''{\"a\":1}'' = CHR ''}'' \<and>
          2 \<le> length ''{\"a\":1}'' \<and> CHR ''}'' \<notin> set r)"
proof -
  note prose = parse_json_cascade
      [of json_loads "''Some prose ```json {\"abstract\":\"x\",\"bullets\":[\"a\"]} ``` trailing''"]
  note array = parse_json_cascade [of json_loads "''x ```json [1,] ``` {\"a\":1}''"]
  have p1: "parse_json json_loads
       ''Some prose ```json {\"abstract\":\"x\",\"bullets\":[\"a\"]} ``` trailing''
     = JObject [(''abstract'', JString ''x''), (''bullets'', JArray [JString ''a''])]"
    using prose[THEN conjunct1]
    by (simp only: prose_not_json prose_fenced prose_block_decodes option.case)
  note p2 = prose[THEN conjunct2, THEN conjunct1, rule_format, OF prose_fenced]
  have a1: "parse_json json_loads ''x ```json [1,] ``` {\"a\":1}'' = JObject [(''a'', JInt 1)]"
    using array[THEN conjunct1]
    by (simp only: array_not_json array_no_fence array_braces array_span_decodes option.case)
  note a2 = array[THEN conjunct2, THEN conjunct2, THEN conjunct1, THEN mp, OF array_no_fence]
  note a3 = array[THEN conjunct2, THEN conjunct2, THEN conjunct2, THEN conjunct1, rule_format,
      OF array_braces]
  show ?thesis
    by (intro conjI prose_not_json prose_fenced p1 p2 array_not_json array_no_fence
        array_braces a1 a2 a3)
qed

text \<open>
  Two more payloads. In the first the pattern does not match at the first fenced
  block, an array, and matches at the second. In the second the first \<^verbatim>\<open>}\<close> is not
  followed by the closing fence, so the group runs on to the end of the second block.
\<close>

lemma second_block_found:
  "search_fenced ''p ```json [1] ``` q ```json {\"a\":1} ```'' = Some ''{\"a\":1}''"
  by (simp add: search_eval)

lemma group_across_blocks:
  "search_fenced ''```json {a} b ``` ```json {\"k\":1} ```''
     = Some ''{a} b ``` ```json {\"k\":1}''"
  by (simp add: search_eval)

text \<open>
  The last sentence of the claim fails. In the payload below the fenced block
  \<^verbatim>\<open>{x}\<close> sits in a string of an object. The whole payload does not decode, because of
  the prose before the object; the fenced block does not decode; the span from the
  first \<^verbatim>\<open>{\<close> to the last \<^verbatim>\<open>}\<close> is the object and decodes. \<open>parse_json\<close> gives the
  fallback, not the object.
\<close>

lemma nested_not_json: "json_loads ''p {\"k\":\"```json{x}```\"}'' = None"
  by (simp add: json_eval)

lemma nested_fenced: "search_fenced ''p {\"k\":\"```json{x}```\"}'' = Some ''{x}''"
  by (simp add: search_eval)

lemma nested_block_fails: "json_loads ''{x}'' = None"
  by (simp add: json_eval)

lemma nested_braces:
  "search_braces ''p {\"k\":\"```json{x}```\"}'' = Some ''{\"k\":\"```json{x}```\"}''"
  by (simp add: search_eval)

lemma nested_span_decodes:
  "json_loads ''{\"k\":\"```json{x}```\"}'' = Some (JObject [(''k'', JString ''```json{x}```'')])"
  by (simp add: json_eval)

lemma nested_strip: "py_strip ''p {\"k\":\"```json{x}```\"}'' = ''p {\"k\":\"```json{x}```\"}''"
  by (simp add: py_strip_def is_space_def)

theorem fenced_block_hides_braces_counterexample:
  "json_loads ''p {\"k\":\"```json{x}```\"}'' = None \<and>
   search_fenced ''p {\"k\":\"```json{x}```\"}'' = Some ''{x}'' \<and>
   json_loads ''{x}'' = None \<and>
   search_braces ''p {\"k\":\"```json{x}```\"}'' = Some ''{\"k\":\"```json{x}```\"}'' \<and>
   json_loads ''{\"k\":\"```json{x}```\"}'' = Some (JObject [(''k'', JString ''```json{x}```'')]) \<and>
   parse_json json_loads ''p {\"k\":\"```json{x}```\"}''
     = JObject [(''abstract'', JString ''p {\"k\":\"```json{x}```\"}''), (''bullets'', JArray [])]"
proof -
  have "parse_json json_loads ''p {\"k\":\"```json{x}```\"}''
          = JObject [(''abstract'', JString ''p {\"k\":\"```json{x}```\"}''), (''bullets'', JArray [])]"
    by (simp only: parse_json_def nested_not_json nested_fenced nested_block_fails nested_strip
        option.case Let_def)
  then show ?thesis
    by (simp only: nested_not_json nested_fenced nested_block_fails nested_braces
        nested_span_decodes simp_thms)
qed

text \<open>
  C6. \<open>parse_json\<close> is a total function into the values of JSON: it has no exception
  among its results, every exception of the decoder being the value \<open>None\<close> of \<open>loads\<close>
  that the code catches. When the payload does not decode and the span that the code
  selects, if there is one, does not decode either, the result is the fallback: the
  stripped payload as the abstract, and no bullets.
\<close>

theorem parse_json_fallback:
  assumes "loads s = None"
    and "\<And>g. search_fenced s = Some g \<Longrightarrow> loads g = None"
    and "\<And>g. search_fenced s = None \<Longrightarrow> search_braces s = Some g \<Longrightarrow> loads g = None"
  shows "parse_json loads s = JObject [(''abstract'', JString (py_strip s)), (''bullets'', JArray [])]"
  using assms by (simp add: parse_json_def split: option.splits)

text \<open>
  The example of the specification, a payload with no span, and a payload whose
  brace span does not decode.
\<close>

lemma plain_not_json: "json_loads ''just plain text'' = None"
  by (simp add: json_eval)

lemma plain_no_fence: "search_fenced ''just plain text'' = None"
  by (simp add: search_eval)

lemma plain_no_braces: "search_braces ''just plain text'' = None"
  by (simp add: search_eval)

lemma plain_strip: "py_strip ''just plain text'' = ''just plain text''"
  by (simp add: py_strip_def is_space_def)

lemma braces_not_json: "json_loads '' see {x} here '' = None"
  by (simp add: json_eval)

lemma braces_no_fence: "search_fenced '' see {x} here '' = None"
  by (simp add: search_eval)

lemma braces_span: "search_braces '' see {x} here '' = Some ''{x}''"
  by (simp add: search_eval)

lemma braces_strip: "py_strip '' see {x} here '' = ''see {x} here''"
  by (simp add: py_strip_def is_space_def)

theorem parse_json_fallback_witness:
  "json_loads ''just plain text'' = None \<and>
   search_fenced ''just plain text'' = None \<and>
   search_braces ''just plain text'' = None \<and>
   parse_json json_loads ''just plain text''
     = JObject [(''abstract'', JString ''just plain text''), (''bullets'', JArray [])] \<and>
   json_loads '' see {x} here '' = None \<and>
   search_fenced '' see {x} here '' = None \<and>
   search_braces '' see {x} here '' = Some ''{x}'' \<and>
   json_loads ''{x}'' = None \<and>
   parse_json json_loads '' see {x} here ''
     = JObject [(''abstract'', JString ''see {x} here''), (''bullets'', JArray [])]"
proof -
  have a: "parse_json json_loads ''just plain text''
             = JObject [(''abstract'', JString (py_strip ''just plain text'')), (''bullets'', JArray [])]"
    by (rule parse_json_fallback) (simp_all only: plain_not_json plain_no_fence plain_no_braces option.distinct)
  have b: "parse_json json_loads '' see {x} here ''
             = JObject [(''abstract'', JString (py_strip '' see {x} here '')), (''bullets'', JArray [])]"
  proof (rule parse_json_fallback)
    show "json_loads '' see {x} here '' = None" by (rule braces_not_json)
  next
    fix g assume "search_fenced '' see {x} here '' = Some g"
    then show "json_loads g = None" by (simp only: braces_no_fence option.distinct)
  next
    fix g assume "search_braces '' see {x} here '' = Some g"
    then have "g = ''{x}''" by (simp only: braces_span option.inject)
    then show "json_loads g = None" by (simp only: nested_block_fails)
  qed
  show ?thesis
    by (simp only: a b plain_strip braces_strip plain_not_json plain_no_fence plain_no_braces
        braces_not_json braces_no_fence braces_span nested_block_fails simp_thms)
qed

subsection \<open>The final summary\<close>

lemma map_of_dict_set_same: "map_of (dict_set d k v) k = Some v"
  by (induction d k v rule: dict_set.induct) simp_all

lemma map_of_dict_set_other: "k' \<noteq> k \<Longrightarrow> map_of (dict_set d k v) k' = map_of d k'"
  by (induction d k v rule: dict_set.induct) simp_all

lemma map_of_dict_setdefault_other:
  "k' \<noteq> k \<Longrightarrow> map_of (dict_setdefault d k v) k' = map_of d k'"
  by (simp add: dict_setdefault_def map_add_def split: option.splits)

lemma map_of_dict_setdefault_same:
  "map_of (dict_setdefault d k v) k = Some (case map_of d k of Some u \<Rightarrow> u | None \<Rightarrow> v)"
  by (simp add: dict_setdefault_def map_add_def split: option.splits)

lemma merged_bul_length:
  assumes "0 \<le> B" and "merged_bul sect B = Inr mbul"
  shows "length mbul \<le> nat B"
  using assms
  by (auto simp: merged_bul_def py_slice_def slice_index_def Let_def split: sum.splits)

lemma finish_bullets:
  "finish (JObject d) mabs mbul W title url = Inr r \<Longrightarrow>
   py_get r ''bullets'' JNull =
     Inr (if truthy (dict_get d ''bullets'' (JArray []))
          then dict_get d ''bullets'' (JArray []) else JArray mbul)"
  by (auto simp: finish_def Let_def py_get_def dict_get_def map_of_dict_set_same
      map_of_dict_set_other map_of_dict_setdefault_other)

lemma finish_abstract:
  "finish (JObject d) mabs mbul W title url = Inr r \<Longrightarrow>
   py_get r ''abstract'' JNull =
     Inr (case map_of d ''abstract'' of
            Some a \<Rightarrow> a
          | None \<Rightarrow> JString (py_slice mabs 0 (W * 8)))"
  by (auto simp: finish_def Let_def py_get_def dict_get_def map_of_dict_set_same
      map_of_dict_set_other map_of_dict_setdefault_same)

lemma summarize_url_stages:
  assumes "fetch_clean w url = Inr (title, x)"
    and "make_model w name = Inr model"
    and "summarize_chunks loads model 0 (min 7 B) (min 220 W) (chunks x 12000 400) = Inr sect"
    and "merged_abs sect = Inr mabs"
    and "merged_bul sect B = Inr mbul"
    and "summarize_block loads (model (length sect)) mabs B W = Inr final"
  shows "summarize_url loads w url name B W = finish final mabs mbul W title url"
  using assms by (simp add: summarize_url_def)

lemma finish_returns: "\<exists>r. finish (JObject d) mabs mbul W title url = Inr (JObject r)"
  by (simp add: finish_def Let_def)

subsection \<open>The example run\<close>

lemma example_fetch:
  "fetch_clean (example_world r) ''u'' = Inr (''Example'', ''three short words'')"
  by (simp add: fetch_clean_def example_world_def example_page_def collect_parts_def
      py_split_def py_strip_def sub_whitespace_def is_space_def Let_def)

lemma example_model:
  "make_model (example_world r) ''m'' = Inr (generate_content (example_world r) ''m'')"
  by (simp add: make_model_def load_key_def example_world_def)

lemma example_chunk_reply:
  "parse_json json_loads ''{\"abstract\":\"one\",\"bullets\":[\"a\",\"b\"]}''
     = JObject [(''abstract'', JString ''one''), (''bullets'', JArray [JString ''a'', JString ''b''])]"
  by (simp add: parse_json_def json_eval)

lemma example_sect:
  "summarize_chunks json_loads (generate_content (example_world r) ''m'') 0 b mw
       (chunks ''three short words'' 12000 400)
     = Inr [JObject [(''abstract'', JString ''one''),
                     (''bullets'', JArray [JString ''a'', JString ''b''])]]"
  by (simp add: chunks_def summarize_block_def example_world_def response_text_def
      example_chunk_reply)

lemma example_merged_abs:
  "merged_abs [JObject [(''abstract'', JString ''one''),
                        (''bullets'', JArray [JString ''a'', JString ''b''])]] = Inr ''one''"
  by (simp add: merged_abs_def py_get_def dict_get_def py_slice_def slice_index_def)

lemma example_merged_bul_one:
  "merged_bul [JObject [(''abstract'', JString ''one''),
                        (''bullets'', JArray [JString ''a'', JString ''b''])]] 1 = Inr [JString ''a'']"
  by (simp add: merged_bul_def py_get_def dict_get_def py_slice_def slice_index_def)

lemma example_merged_bul_six:
  "merged_bul [JObject [(''abstract'', JString ''one''),
                        (''bullets'', JArray [JString ''a'', JString ''b''])]] 6
     = Inr [JString ''a'', JString ''b'']"
  by (simp add: merged_bul_def py_get_def dict_get_def py_slice_def slice_index_def)

lemma example_final:
  "summarize_block json_loads (generate_content (example_world r) ''m'' (Suc 0)) mabs b mw
     = Inr (parse_json json_loads r)"
  by (simp add: summarize_block_def example_world_def response_text_def)

lemma reply_no_bullets:
  "parse_json json_loads ''{\"abstract\":\"fin\",\"bullets\":[]}''
     = JObject [(''abstract'', JString ''fin''), (''bullets'', JArray [])]"
  by (simp add: parse_json_def json_eval)

lemma reply_two_bullets:
  "parse_json json_loads ''{\"abstract\":\"fin\",\"bullets\":[\"x\",\"y\"]}''
     = JObject [(''abstract'', JString ''fin''), (''bullets'', JArray [JString ''x'', JString ''y''])]"
  by (simp add: parse_json_def json_eval)

lemma reply_empty:
  "parse_json json_loads [] = JObject [(''abstract'', JString []), (''bullets'', JArray [])]"
  by (simp add: parse_json_def json_eval search_braces_def py_strip_def)

lemma reply_no_abstract:
  "parse_json json_loads ''{\"bullets\":[]}'' = JObject [(''bullets'', JArray [])]"
  by (simp add: parse_json_def json_eval)

text \<open>
  C3, as the code has it. In a run with \<open>0 \<le> B\<close> whose stages succeed and whose final
  call gives a dict \<open>d\<close>, the merged bullets are at most \<open>B\<close>, the run returns a dict,
  and its bullets are the bullets of \<open>d\<close> when they are truthy, whatever their number,
  and the merged bullets otherwise. So the cap holds for the merged bullets and for
  the result that falls back to them, not for the bullets of the final call.
\<close>

theorem final_bullets:
  assumes "0 \<le> B"
    and "fetch_clean w url = Inr (title, x)"
    and "make_model w name = Inr model"
    and "summarize_chunks loads model 0 (min 7 B) (min 220 W) (chunks x 12000 400) = Inr sect"
    and "merged_abs sect = Inr mabs"
    and "merged_bul sect B = Inr mbul"
    and "summarize_block loads (model (length sect)) mabs B W = Inr (JObject d)"
  shows "length mbul \<le> nat B \<and>
         (\<exists>r. summarize_url loads w url name B W = Inr (JObject r) \<and>
              py_get (JObject r) ''bullets'' JNull =
                Inr (if truthy (dict_get d ''bullets'' (JArray []))
                     then dict_get d ''bullets'' (JArray []) else JArray mbul))"
proof -
  have run: "summarize_url loads w url name B W = finish (JObject d) mabs mbul W title url"
    using assms(2-7) by (rule summarize_url_stages)
  obtain r where r: "finish (JObject d) mabs mbul W title url = Inr (JObject r)"
    using finish_returns by blast
  have "py_get (JObject r) ''bullets'' JNull =
          Inr (if truthy (dict_get d ''bullets'' (JArray []))
               then dict_get d ''bullets'' (JArray []) else JArray mbul)"
    using r by (rule finish_bullets)
  with run r merged_bul_length[OF assms(1) assms(6)] show ?thesis by simp
qed

theorem final_bullets_witness:
  "(0::int) \<le> 1 \<and>
   fetch_clean (example_world ''{\"abstract\":\"fin\",\"bullets\":[]}'') ''u''
     = Inr (''Example'', ''three short words'') \<and>
   merged_bul [JObject [(''abstract'', JString ''one''),
                        (''bullets'', JArray [JString ''a'', JString ''b''])]] 1
     = Inr [JString ''a''] \<and>
   length [JString ''a''] \<le> nat 1 \<and>
   (\<exists>r. summarize_url json_loads (example_world ''{\"abstract\":\"fin\",\"bullets\":[]}'')
            ''u'' ''m'' 1 180 = Inr (JObject r) \<and>
        py_get (JObject r) ''bullets'' JNull = Inr (JArray [JString ''a'']))"
proof -
  have h7: "summarize_block json_loads
              (generate_content (example_world ''{\"abstract\":\"fin\",\"bullets\":[]}'') ''m''
                 (length [JObject [(''abstract'', JString ''one''),
                                   (''bullets'', JArray [JString ''a'', JString ''b''])]]))
              ''one'' 1 180
            = Inr (JObject [(''abstract'', JString ''fin''), (''bullets'', JArray [])])"
    by (simp only: list.size One_nat_def add_0 example_final reply_no_bullets)
  have t: "truthy (dict_get [(''abstract'', JString ''fin''), (''bullets'', JArray [])]
                     ''bullets'' (JArray [])) = False"
    by (simp add: dict_get_def)
  have h1: "(0::int) \<le> 1" by simp
  note main = final_bullets[OF h1 example_fetch example_model example_sect example_merged_abs
      example_merged_bul_one h7]
  from main have c1: "length [JString ''a''] \<le> nat 1" by (rule conjunct1)
  from main have c2:
    "\<exists>r. summarize_url json_loads (example_world ''{\"abstract\":\"fin\",\"bullets\":[]}'')
            ''u'' ''m'' 1 180 = Inr (JObject r) \<and>
         py_get (JObject r) ''bullets'' JNull = Inr (JArray [JString ''a''])"
    by (simp only: t if_False)
  show ?thesis
    by (intro conjI h1 example_fetch example_merged_bul_one c1 c2)
qed

text \<open>
  The cap fails for the bullets of the final call. With one bullet requested, the
  chunk summarized with the bullets \<^verbatim>\<open>a\<close> and \<^verbatim>\<open>b\<close>, and a final answer with the two
  bullets \<^verbatim>\<open>x\<close> and \<^verbatim>\<open>y\<close>, the run returns both \<^verbatim>\<open>x\<close> and \<^verbatim>\<open>y\<close>.
\<close>

theorem final_bullets_uncapped_counterexample:
  "summarize_url json_loads (example_world ''{\"abstract\":\"fin\",\"bullets\":[\"x\",\"y\"]}'')
       ''u'' ''m'' 1 180
     = Inr (JObject [(''abstract'', JString ''fin''),
                     (''bullets'', JArray [JString ''x'', JString ''y'']),
                     (''title'', JString ''Example''), (''url'', JString ''u'')])"
proof -
  have "summarize_url json_loads
          (example_world ''{\"abstract\":\"fin\",\"bullets\":[\"x\",\"y\"]}'') ''u'' ''m'' 1 180
        = finish (JObject [(''abstract'', JString ''fin''),
                           (''bullets'', JArray [JString ''x'', JString ''y''])])
            ''one'' [JString ''a''] 180 ''Example'' ''u''"
    by (rule summarize_url_stages[OF example_fetch example_model example_sect
          example_merged_abs example_merged_bul_one])
       (simp only: list.size One_nat_def add_0 example_final reply_two_bullets)
  then show ?thesis
    by (simp add: finish_def dict_setdefault_def dict_get_def Let_def)
qed

text \<open>
  The code fills the abstract with \<^verbatim>\<open>setdefault\<close>, which only acts on a missing
  key: in a run whose stages succeed and whose final call gives a dict \<open>d\<close>, the
  abstract returned is the abstract of \<open>d\<close> whenever \<open>d\<close> has one, also an empty one,
  and the first \<open>8 * W\<close> characters of the merged abstract only when \<open>d\<close> has none.
\<close>

lemma final_abstract:
  assumes "fetch_clean w url = Inr (title, x)"
    and "make_model w name = Inr model"
    and "summarize_chunks loads model 0 (min 7 B) (min 220 W) (chunks x 12000 400) = Inr sect"
    and "merged_abs sect = Inr mabs"
    and "merged_bul sect B = Inr mbul"
    and "summarize_block loads (model (length sect)) mabs B W = Inr (JObject d)"
  shows "\<exists>r. summarize_url loads w url name B W = Inr (JObject r) \<and>
             py_get (JObject r) ''abstract'' JNull =
               Inr (case map_of d ''abstract'' of
                      Some a \<Rightarrow> a
                    | None \<Rightarrow> JString (py_slice mabs 0 (W * 8)))"
proof -
  have run: "summarize_url loads w url name B W = finish (JObject d) mabs mbul W title url"
    using assms by (rule summarize_url_stages)
  obtain r where r: "finish (JObject d) mabs mbul W title url = Inr (JObject r)"
    using finish_returns by blast
  from r have "py_get (JObject r) ''abstract'' JNull =
                 Inr (case map_of d ''abstract'' of
                        Some a \<Rightarrow> a
                      | None \<Rightarrow> JString (py_slice mabs 0 (W * 8)))"
    by (rule finish_abstract)
  with run r show ?thesis by simp
qed

text \<open>
  C2 does not hold of the code. In the first run below the model answers the final
  call with the empty text: \<open>parse_json\<close> gives the fallback, whose abstract is the
  empty string, and the run returns the empty abstract although the merged abstract
  is \<^verbatim>\<open>one\<close>. The bullets of the same run, filled with \<^verbatim>\<open>or\<close>, do fall back to the
  merged bullets. In the second run the answer has no abstract, and the run returns
  the merged abstract.
\<close>

theorem empty_final_abstract_kept:
  "merged_abs [JObject [(''abstract'', JString ''one''),
                        (''bullets'', JArray [JString ''a'', JString ''b''])]] = Inr ''one'' \<and>
   summarize_url json_loads (example_world []) ''u'' ''m'' 6 180
     = Inr (JObject [(''abstract'', JString []),
                     (''bullets'', JArray [JString ''a'', JString ''b'']),
                     (''title'', JString ''Example''), (''url'', JString ''u'')]) \<and>
   summarize_url json_loads (example_world ''{\"bullets\":[]}'') ''u'' ''m'' 6 180
     = Inr (JObject [(''bullets'', JArray [JString ''a'', JString ''b'']),
                     (''abstract'', JString ''one''),
                     (''title'', JString ''Example''), (''url'', JString ''u'')])"
proof -
  have "summarize_url json_loads (example_world []) ''u'' ''m'' 6 180
        = finish (JObject [(''abstract'', JString []), (''bullets'', JArray [])])
            ''one'' [JString ''a'', JString ''b''] 180 ''Example'' ''u''"
    by (rule summarize_url_stages[OF example_fetch example_model example_sect
          example_merged_abs example_merged_bul_six])
       (simp only: list.size One_nat_def add_0 example_final reply_empty)
  then have a: "summarize_url json_loads (example_world []) ''u'' ''m'' 6 180
     = Inr (JObject [(''abstract'', JString []),
                     (''bullets'', JArray [JString ''a'', JString ''b'']),
                     (''title'', JString ''Example''), (''url'', JString ''u'')])"
    by (simp add: finish_def dict_setdefault_def dict_get_def Let_def)
  have "summarize_url json_loads (example_world ''{\"bullets\":[]}'') ''u'' ''m'' 6 180
        = finish (JObject [(''bullets'', JArray [])])
            ''one'' [JString ''a'', JString ''b''] 180 ''Example'' ''u''"
    by (rule summarize_url_stages[OF example_fetch example_model example_sect
          example_merged_abs example_merged_bul_six])
       (simp only: list.size One_nat_def add_0 example_final reply_no_abstract)
  then have b: "summarize_url json_loads (example_world ''{\"bullets\":[]}'') ''u'' ''m'' 6 180
     = Inr (JObject [(''bullets'', JArray [JString ''a'', JString ''b'']),
                     (''abstract'', JString ''one''),
                     (''title'', JString ''Example''), (''url'', JString ''u'')])"
    by (simp add: finish_def dict_setdefault_def dict_get_def Let_def py_slice_def slice_index_def)
  show ?thesis by (intro conjI example_merged_abs a b)
qed

end
